theory Spec2Isabelle
  imports Main "HOL-Library.Word"
begin

section \<open>Errors and the exception monad\<close>

text \<open>
  Every \<open>throw\<close> of the TypeScript sources, and every exception of the @noble libraries
  they call, is a value of type \<open>error\<close>; a function that can throw returns
  \<open>error + 'a\<close> with \<open>Inl\<close> for the exception.
\<close>

datatype error =
    AmountOutOfRange \<comment> \<open>twistedElGamal.ts: "The amount must be in the range 0 to n"\<close>
  | InvalidScalar \<comment> \<open>noble \<open>multiply\<close>: the scalar is not in the range 1 to n - 1\<close>
  | InvalidBytes \<comment> \<open>noble \<open>ensureBytes\<close>: not the expected number of bytes\<close>
  | InvalidPoint \<comment> \<open>noble \<open>RistrettoPoint.fromHex\<close>: not a canonical encoding\<close>
  | InvalidHex \<comment> \<open>noble \<open>hexToBytes\<close> inside \<open>numberToBytesLE\<close>\<close>
  | InverseArgument \<comment> \<open>noble \<open>invert\<close>: number is 0 or modulo is not positive\<close>
  | InverseNotExist \<comment> \<open>noble \<open>invert\<close>: "invert: does not exist"\<close>
  | DecryptionRangeError \<comment> \<open>"Error while decrypting amount in specified range"\<close>
  | UndefinedDereference \<comment> \<open>JavaScript TypeError: a property of \<open>undefined\<close> is read\<close>
  | BigIntMixError \<comment> \<open>JavaScript TypeError: BigInt arithmetic on \<open>undefined\<close>\<close>
  | NotInitialized \<comment> \<open>TypeError "VeiledWithdraw is not initialized"\<close>
  | InvalidRandomnessLength \<comment> \<open>TypeError "Invalid length list of randomness"\<close>
  | AmountTooLarge \<comment> \<open>TypeError "Amount must be less than 2n**64"\<close>
  | BalanceNotDefined \<comment> \<open>TypeError "Balance after transfer is not defined"\<close>
  | NewBalanceNotDefined \<comment> \<open>TypeError "this.encryptedActualBalanceAfterTransfer is not defined"\<close>
  | ProofLengthNotMultiple \<comment> \<open>"Invalid sigma proof length: the length must be a multiple of 32"\<close>
  | ProofTooShort \<comment> \<open>"Invalid sigma proof length of veiled transfer"\<close>
  | BackendError \<comment> \<open>the range proof backend rejects\<close>

definition bindE :: "error + 'a \<Rightarrow> ('a \<Rightarrow> error + 'b) \<Rightarrow> error + 'b" where
  "bindE m f = (case m of Inl e \<Rightarrow> Inl e | Inr x \<Rightarrow> f x)"

text \<open>\<open>Array.prototype.map\<close> with a callback that can throw: left to right, the first
  exception ends the loop.\<close>

fun mapE :: "('a \<Rightarrow> error + 'b) \<Rightarrow> 'a list \<Rightarrow> error + 'b list" where
  "mapE f [] = Inr []"
| "mapE f (x # xs) = bindE (f x) (\<lambda>y. bindE (mapE f xs) (\<lambda>ys. Inr (y # ys)))"

section \<open>Bytes and numbers (@noble/curves/abstract/utils)\<close>

type_synonym bytes = "8 word list"

fun bytesToNumberLE :: "bytes \<Rightarrow> int" where
  "bytesToNumberLE [] = 0"
| "bytesToNumberLE (b # bs) = uint b + 256 * bytesToNumberLE bs"

text \<open>The \<open>k\<close> low bytes of \<open>n\<close>, least significant first.\<close>

fun le_bytes :: "nat \<Rightarrow> int \<Rightarrow> bytes" where
  "le_bytes k n = (if k = 0 then [] else word_of_int (n mod 256) # le_bytes (k - 1) (n div 256))"

fun hex_digits :: "nat \<Rightarrow> nat" where
  "hex_digits n = (if n < 16 then 1 else Suc (hex_digits (n div 16)))"

text \<open>
  \<open>numberToBytesLE(n, len)\<close> is \<open>hexToBytes(n.toString(16).padStart(2 * len, '0')).reverse()\<close>:
  a negative number gives a string with a minus sign and a number of more than
  \<open>2 * len\<close> hexadecimal digits is not cut; \<open>hexToBytes\<close> throws on a string that is
  not hexadecimal or has an odd length.
\<close>

definition numberToBytesLE :: "int \<Rightarrow> nat \<Rightarrow> error + bytes" where
  "numberToBytesLE n len =
     (if n < 0 then Inl InvalidHex
      else let d = max (hex_digits (nat n)) (2 * len)
           in if odd d then Inl InvalidHex else Inr (le_bytes (d div 2) n))"

definition ensureBytes :: "bytes \<Rightarrow> nat \<Rightarrow> error + bytes" where
  "ensureBytes hex expectedLength =
     (if length hex \<noteq> expectedLength then Inl InvalidBytes else Inr hex)"

section \<open>Scalars (@noble/curves/abstract/modular)\<close>

text \<open>The order of the Ristretto255 group, \<open>ed25519.CURVE.n\<close>
  (\<open>2^252 + 27742317777372353535851937790883648493\<close>).\<close>

definition CURVE_n :: int where
  "CURVE_n = 7237005577332262213973186563042994240857116359379907606001950938285454250989"

text \<open>JavaScript's \<open>%\<close> on BigInt truncates: the result has the sign of the dividend.\<close>

definition js_rem :: "int \<Rightarrow> int \<Rightarrow> int" where
  "js_rem a b = sgn a * (\<bar>a\<bar> mod \<bar>b\<bar>)"

text \<open>noble's \<open>mod(a, b)\<close>.\<close>

definition nmod :: "int \<Rightarrow> int \<Rightarrow> int" where
  "nmod a b = (let result = js_rem a b in if result \<ge> 0 then result else b + result)"

text \<open>
  noble's \<open>invert(number, modulo)\<close>: the extended Euclidean algorithm. In the loop \<open>a\<close>
  and \<open>b\<close> are never negative, where JavaScript's \<open>/\<close> and \<open>%\<close> agree with \<open>div\<close> and
  \<open>mod\<close>.
\<close>

function invert_loop :: "int \<Rightarrow> int \<Rightarrow> int \<Rightarrow> int \<Rightarrow> int \<Rightarrow> int \<Rightarrow> int \<times> int" where
  "invert_loop a b x y u v =
     (if a = 0 then (b, x)
      else let q = b div a; r = b mod a; m = x - u * q; n = y - v * q
           in invert_loop r a u v m n)"
  by pat_completeness auto
termination
  by (relation "measure (\<lambda>(a, b, x, y, u, v). nat \<bar>a\<bar>)") (auto simp: abs_mod_less)

definition invert :: "int \<Rightarrow> int \<Rightarrow> error + int" where
  "invert number md =
     (if number = 0 \<or> md \<le> 0 then Inl InverseArgument
      else case invert_loop (nmod number md) md 0 1 1 0 of
             (g, x) \<Rightarrow> if g \<noteq> 1 then Inl InverseNotExist else Inr (nmod x md))"

section \<open>The Ristretto255 group (@noble/curves/ed25519)\<close>

text \<open>
  Ristretto255 is a cyclic group of prime order \<open>CURVE_n\<close> generated by
  \<open>RistrettoPoint.BASE\<close>. A point is represented by its discrete logarithm to that
  base, an integer read modulo \<open>CURVE_n\<close>; the group operations are then the arithmetic
  of the integers modulo \<open>CURVE_n\<close>. The 32 byte canonical encoding of a point is
  represented by the little-endian bytes of that logarithm: as the real encoding, it
  is injective, \<open>fromHex\<close> inverts it and rejects what is not the encoding of a point.
  Which 32 bytes encode a point is not the same for the two encodings, so that \<open>fromHex\<close>
  stands for the library's on the encodings of points (\<open>toRawBytes P\<close>) only: on other
  bytes, such as the bytes of a private key, the statements below either assume the
  outcome of the decoding or hold for every outcome.

  \<open>multiply\<close> accepts the scalars from 1 to \<open>CURVE_n - 1\<close> only and throws on every
  other one (0 included): this is why \<open>encryptWithPK\<close> and \<open>decryptWithPK\<close> below
  treat the amount 0 apart.
\<close>

datatype RistPoint = RistPoint (dlog: int)

definition ZERO :: RistPoint where
  "ZERO = RistPoint 0"

definition BASE :: RistPoint where
  "BASE = RistPoint 1"

definition add :: "RistPoint \<Rightarrow> RistPoint \<Rightarrow> RistPoint" where
  "add P Q = RistPoint ((dlog P + dlog Q) mod CURVE_n)"

definition subtract :: "RistPoint \<Rightarrow> RistPoint \<Rightarrow> RistPoint" where
  "subtract P Q = RistPoint ((dlog P - dlog Q) mod CURVE_n)"

text \<open>The multiple \<open>k \<cdot> P\<close> of the group, for every integer \<open>k\<close>.\<close>

definition smul :: "int \<Rightarrow> RistPoint \<Rightarrow> RistPoint" where
  "smul k P = RistPoint ((dlog P * k) mod CURVE_n)"

definition multiply :: "RistPoint \<Rightarrow> int \<Rightarrow> error + RistPoint" where
  "multiply P scalar =
     (if 1 \<le> scalar \<and> scalar < CURVE_n then Inr (smul scalar P) else Inl InvalidScalar)"

definition equals :: "RistPoint \<Rightarrow> RistPoint \<Rightarrow> bool" where
  "equals P Q = (dlog P mod CURVE_n = dlog Q mod CURVE_n)"

definition toRawBytes :: "RistPoint \<Rightarrow> bytes" where
  "toRawBytes P = le_bytes 32 (dlog P mod CURVE_n)"

definition fromHex :: "bytes \<Rightarrow> error + RistPoint" where
  "fromHex hex =
     (if length hex = 32 \<and> bytesToNumberLE hex < CURVE_n
      then Inr (RistPoint (bytesToNumberLE hex)) else Inl InvalidPoint)"

section \<open>Twisted ElGamal keys (twistedEd25519.ts)\<close>

text \<open>
  Modelled from the spec: \<open>TwistedEd25519PrivateKey.publicKey()\<close> is not in the sources.
  "The decryption key \<open>s\<close> is a Scalar and the encryption key is the point
  \<open>P = (1/s) \<cdot> H\<close>", both with a 32 byte serialization. A private key is its 32 bytes
  (\<open>toUint8Array()\<close>), read as a little-endian number; a public key is the encoding of
  its point. \<open>H\<close> stands for \<open>H_RISTRETTO\<close>, a constant of the same missing file, and is
  a parameter of every function that uses it.
\<close>

definition privateKey_publicKey :: "RistPoint \<Rightarrow> bytes \<Rightarrow> error + bytes" where
  "privateKey_publicKey H privateKey =
     bindE (invert (bytesToNumberLE privateKey) CURVE_n) (\<lambda>invertModScalarLE.
     bindE (multiply H invertModScalarLE) (\<lambda>key.
     Inr (toRawBytes key)))"

section \<open>Twisted ElGamal (twistedElGamal.ts)\<close>

record TwistedElGamalCiphertext =
  C :: RistPoint
  D :: RistPoint

definition new_TwistedElGamalCiphertext :: "bytes \<Rightarrow> bytes \<Rightarrow> error + TwistedElGamalCiphertext" where
  "new_TwistedElGamalCiphertext c d =
     bindE (fromHex c) (\<lambda>pc. bindE (fromHex d) (\<lambda>pd. Inr \<lparr>C = pc, D = pd\<rparr>))"

record DecryptionRange =
  rangeStart :: "int option"
  rangeEnd :: "int option"

text \<open>
  \<open>encryptWithPK(amount, publicKey, random)\<close>. The argument \<open>random\<close> is the value of
  \<open>random ?? randomBytes(32)\<close>: the caller's bytes or the ones drawn.
\<close>

definition encryptWithPK ::
  "RistPoint \<Rightarrow> int \<Rightarrow> bytes \<Rightarrow> bytes \<Rightarrow> error + TwistedElGamalCiphertext" where
  "encryptWithPK H amount publicKey random =
     (if amount < 0 \<and> amount \<ge> CURVE_n then Inl AmountOutOfRange
      else
        bindE (ensureBytes random 32) (\<lambda>rBytes.
        let m = amount;
            r = nmod (bytesToNumberLE rBytes) CURVE_n
        in bindE (multiply H r) (\<lambda>rH.
           bindE (if m = 0 then Inr ZERO else multiply BASE m) (\<lambda>mG.
           bindE (fromHex publicKey) (\<lambda>pk.
           bindE (multiply pk r) (\<lambda>pD.
           let pC = add mG rH
           in new_TwistedElGamalCiphertext (toRawBytes pC) (toRawBytes pD)))))))"

text \<open>The \<open>while\<close> loop of \<open>decryptWithPK\<close>; \<open>endAmount - amount\<close> decreases.\<close>

function decrypt_search :: "RistPoint \<Rightarrow> int \<Rightarrow> int \<Rightarrow> RistPoint \<Rightarrow> error + int" where
  "decrypt_search mH endAmount amount searchablePoint =
     (if equals mH searchablePoint then Inr amount
      else if amount \<ge> endAmount then Inl DecryptionRangeError
      else decrypt_search mH endAmount (amount + 1) (add searchablePoint BASE))"
  by pat_completeness auto
termination
  by (relation "measure (\<lambda>(mH, endAmount, amount, p). nat (endAmount - amount))") auto

definition decryptWithPK ::
  "TwistedElGamalCiphertext \<Rightarrow> bytes \<Rightarrow> DecryptionRange option \<Rightarrow> error + int" where
  "decryptWithPK ciphertext privateKey decryptionRange =
     (let modS = nmod (bytesToNumberLE privateKey) CURVE_n
      in bindE (fromHex (toRawBytes (D ciphertext))) (\<lambda>pD.
         bindE (multiply pD modS) (\<lambda>sD.
         bindE (fromHex (toRawBytes (C ciphertext))) (\<lambda>pC.
         let mH = subtract pC sD;
             amount = (case decryptionRange of None \<Rightarrow> 0
                       | Some rg \<Rightarrow> (case rangeStart rg of None \<Rightarrow> 0 | Some s \<Rightarrow> s))
         in if amount = 0 \<and> equals mH ZERO then Inr 0
            else
              let amount = (if amount = 0 then amount + 1 else amount)
              in bindE (multiply BASE amount) (\<lambda>searchablePoint.
                 let endAmount = (case decryptionRange of None \<Rightarrow> CURVE_n
                                  | Some rg \<Rightarrow> (case rangeEnd rg of None \<Rightarrow> CURVE_n | Some e \<Rightarrow> e))
                 in decrypt_search mH endAmount amount searchablePoint)))))"

definition addCiphertext ::
  "TwistedElGamalCiphertext \<Rightarrow> TwistedElGamalCiphertext \<Rightarrow> error + TwistedElGamalCiphertext" where
  "addCiphertext this ciphertext =
     (let updatedC = add (C this) (C ciphertext);
          updatedD = add (D this) (D ciphertext)
      in new_TwistedElGamalCiphertext (toRawBytes updatedC) (toRawBytes updatedD))"

text \<open>The point \<open>M = C - s \<cdot> D\<close> that \<open>decryptWithPK\<close> searches for, with the total
  multiple of the group.\<close>

definition message_point :: "TwistedElGamalCiphertext \<Rightarrow> bytes \<Rightarrow> RistPoint" where
  "message_point ciphertext privateKey =
     subtract (C ciphertext) (smul (bytesToNumberLE privateKey) (D ciphertext))"

section \<open>Constants and helpers of the veiled operations (consts.ts, helpers.ts, utils.ts)\<close>

text \<open>
  Modelled from the spec: \<open>consts.ts\<close> is not in the sources. A balance has "4 chunks of
  32 bits"; a sigma proof is a "concatenation of fixed-width fields, 32 bytes each", and
  the transfer proof has 33 of them before the auditor tail.
\<close>

definition CHUNK_BITS_BI :: int where
  "CHUNK_BITS_BI = 32"

definition VEILED_BALANCE_CHUNK_SIZE :: nat where
  "VEILED_BALANCE_CHUNK_SIZE = 4"

definition PROOF_CHUNK_SIZE :: nat where
  "PROOF_CHUNK_SIZE = 32"

definition SIGMA_PROOF_TRANSFER_SIZE :: nat where
  "SIGMA_PROOF_TRANSFER_SIZE = PROOF_CHUNK_SIZE * 33"

text \<open>
  Modelled from the spec: \<open>amountToChunks\<close> and \<open>chunksToAmount\<close> are not in the sources.
  "\<open>v = \<Sum> c\<^sub>i \<cdot> 2^(32 i)\<close> with \<open>c\<^sub>i\<close> in \<open>[0, 2^32)\<close>".
\<close>

definition amountToChunks :: "int \<Rightarrow> nat \<Rightarrow> int list" where
  "amountToChunks amount chunksCount =
     map (\<lambda>i. (amount div 2 ^ (32 * i)) mod 2 ^ 32) [0..<chunksCount]"

definition chunksToAmount :: "int list \<Rightarrow> int" where
  "chunksToAmount chunks = foldr (\<lambda>chunk acc. chunk + 2 ^ 32 * acc) chunks 0"

text \<open>
  Modelled from the spec: \<open>publicKeyToU8\<close>, \<open>ed25519modN\<close> and \<open>ed25519InvertN\<close> are not in
  the sources. A public key is its "canonical 32-byte serialization"; scalars are reduced
  modulo the group order and "\<open>s\<^sup>-\<^sup>1\<close> is the modular inverse of \<open>s\<close>".
\<close>

definition publicKeyToU8 :: "bytes \<Rightarrow> bytes" where
  "publicKeyToU8 pk = pk"

definition new_TwistedEd25519PublicKey :: "bytes \<Rightarrow> error + bytes" where
  "new_TwistedEd25519PublicKey hexInput =
     (if length hexInput \<noteq> 32 then Inl InvalidBytes else Inr hexInput)"

definition ed25519modN :: "int \<Rightarrow> int" where
  "ed25519modN a = nmod a CURVE_n"

definition ed25519InvertN :: "int \<Rightarrow> error + int" where
  "ed25519InvertN a = invert a CURVE_n"

text \<open>
  \<open>genFiatShamirChallenge\<close> as \<open>sigmaProofs.ts\<close> has it. \<open>sha512\<close> of @noble/hashes is a
  parameter: no claim depends on what it computes.
\<close>

definition genFiatShamirChallenge :: "(bytes \<Rightarrow> bytes) \<Rightarrow> bytes list \<Rightarrow> int" where
  "genFiatShamirChallenge sha512 arrays =
     (let hash = sha512 (concat arrays) in nmod (bytesToNumberLE hash) CURVE_n)"

definition utf8ToBytes :: "string \<Rightarrow> bytes" where
  "utf8ToBytes s = map (\<lambda>c. of_nat (of_char c)) s"

text \<open>JavaScript's \<open>xs[i]\<close>: \<open>undefined\<close> out of range.\<close>

definition index :: "'a list \<Rightarrow> nat \<Rightarrow> 'a option" where
  "index xs i = (if i < length xs then Some (xs ! i) else None)"

text \<open>\<open>Array.prototype.reduce\<close> with a callback that can throw.\<close>

fun reduceE :: "('b \<Rightarrow> 'a \<Rightarrow> error + 'b) \<Rightarrow> 'b \<Rightarrow> 'a list \<Rightarrow> error + 'b" where
  "reduceE f acc [] = Inr acc"
| "reduceE f acc (x # xs) = bindE (f acc x) (\<lambda>acc'. reduceE f acc' xs)"

text \<open>
  \<open>TwistedElGamal.encryptWithPK(chunk, publicKey, this.randomness[i])\<close>, the call of
  \<open>veiledTransfer.ts\<close>. \<open>randomness\<close> is a \<open>bigint[]\<close> and the third parameter of
  \<open>encryptWithPK\<close> a \<open>Uint8Array\<close>: after the guard on the amount, a bigint is handed to
  \<open>ensureBytes\<close>, which throws on every value that is neither a hexadecimal string nor a
  byte array. Where the list has no element \<open>i\<close> the argument is \<open>undefined\<close>, and
  \<open>random ?? randomBytes(32)\<close> is \<open>drawn\<close>, the bytes sampled.
\<close>

definition encryptWithPK_bigint ::
  "RistPoint \<Rightarrow> int \<Rightarrow> bytes \<Rightarrow> int option \<Rightarrow> bytes \<Rightarrow> error + TwistedElGamalCiphertext" where
  "encryptWithPK_bigint H amount publicKey random drawn =
     (case random of
        None \<Rightarrow> encryptWithPK H amount publicKey drawn
      | Some r \<Rightarrow> if amount < 0 \<and> amount \<ge> CURVE_n then Inl AmountOutOfRange
                  else Inl InvalidBytes)"

section \<open>The transfer builder (veiledOperationZKP/veiledTransfer.ts)\<close>

record VeiledTransferSigmaProof =
  alpha1 :: bytes
  alpha2 :: bytes
  alpha3List :: "bytes list"
  alpha4List :: "bytes list"
  alpha5 :: bytes
  alpha6List :: "bytes list"
  X1 :: bytes
  X2List :: "bytes list"
  X3List :: "bytes list"
  X4List :: "bytes list"
  X5 :: bytes
  X6List :: "bytes list"
  X7List :: "bytes list option"

text \<open>
  The object. A field declared with \<open>?\<close> is an option, and so is \<open>randomness\<close>, which the
  code itself tests for \<open>undefined\<close>.
\<close>

record VeiledTransfer =
  isInitialized :: bool
  twistedEd25519PrivateKey :: bytes
  recipientPublicKey :: bytes
  recipientPublicKeyU8 :: bytes
  auditorPublicKeys :: "bytes list option"
  auditorsU8PublicKeys :: "bytes list"
  auditorsDList :: "bytes list list"
  encryptedActualBalance :: "TwistedElGamalCiphertext list"
  chunkedAmountToTransfer :: "int list"
  chunkedBalanceAfterTransfer :: "int list"
  amountToTransfer :: int
  balanceAfterTransfer :: "int option"
  encryptedActualBalanceAfterTransfer :: "TwistedElGamalCiphertext list option"
  encryptedAmountByRecipient :: "TwistedElGamalCiphertext list"
  randomness :: "int list option"

text \<open>
  The object before the body of the constructor runs. Only \<open>isInitialized\<close> has an
  initialiser; every other field is \<open>undefined\<close>: \<open>None\<close> for an option, and a placeholder
  for a field of another type, which the constructor assigns before it reads it.
\<close>

definition VeiledTransfer_fields :: VeiledTransfer where
  "VeiledTransfer_fields =
     \<lparr>isInitialized = False, twistedEd25519PrivateKey = [], recipientPublicKey = [],
      recipientPublicKeyU8 = [], auditorPublicKeys = None, auditorsU8PublicKeys = [],
      auditorsDList = [], encryptedActualBalance = [], chunkedAmountToTransfer = [],
      chunkedBalanceAfterTransfer = [], amountToTransfer = 0, balanceAfterTransfer = None,
      encryptedActualBalanceAfterTransfer = None, encryptedAmountByRecipient = [],
      randomness = None\<rparr>"

text \<open>
  The constructor. The result is the exception, if one is thrown, and the object as the
  body left it. \<open>le_bytes 32 (rng i)\<close> are the bytes that \<open>randomBytes(32)\<close> returns for
  chunk \<open>i\<close> when its randomness is \<open>undefined\<close>, and \<open>rng 4\<close>, \dots, \<open>rng 7\<close> the scalars
  that \<open>ed25519GenListOfRandom\<close> (not in the sources) returns.
\<close>

definition VeiledTransfer_constructor ::
  "RistPoint \<Rightarrow> (nat \<Rightarrow> int) \<Rightarrow> bytes \<Rightarrow> TwistedElGamalCiphertext list \<Rightarrow> int \<Rightarrow> bytes
     \<Rightarrow> bytes list option \<Rightarrow> int list option \<Rightarrow> (error + unit) \<times> VeiledTransfer" where
  "VeiledTransfer_constructor H rng twistedEd25519PrivateKey' encryptedActualBalance'
       amountToTransfer' recipientPublicKey' auditorPublicKeys' randomness' =
     (let this = VeiledTransfer_fields;
          this = this\<lparr>twistedEd25519PrivateKey := twistedEd25519PrivateKey'\<rparr>;
          this = this\<lparr>encryptedActualBalance := encryptedActualBalance'\<rparr>;
          this = this\<lparr>amountToTransfer := amountToTransfer'\<rparr>;
          this = this\<lparr>recipientPublicKey := recipientPublicKey'\<rparr>;
          this = this\<lparr>recipientPublicKeyU8 := publicKeyToU8 (recipientPublicKey this)\<rparr>;
          this = this\<lparr>auditorPublicKeys := auditorPublicKeys'\<rparr>;
          this = this\<lparr>auditorsU8PublicKeys :=
                   (case auditorPublicKeys' of None \<Rightarrow> [] | Some pks \<Rightarrow> map publicKeyToU8 pks)\<rparr>
      in case mapE (\<lambda>pk. bindE (fromHex pk) (\<lambda>pkRist.
                 case randomness this of
                   None \<Rightarrow> Inl UndefinedDereference
                 | Some rs \<Rightarrow> mapE (\<lambda>r. bindE (multiply pkRist r) (\<lambda>p. Inr (toRawBytes p))) rs))
              (auditorsU8PublicKeys this) of
           Inl e \<Rightarrow> (Inl e, this)
         | Inr dl \<Rightarrow>
      let this = this\<lparr>auditorsDList := dl\<rparr>;
          this = this\<lparr>chunkedAmountToTransfer :=
                   amountToChunks (amountToTransfer this) VEILED_BALANCE_CHUNK_SIZE\<rparr>
      in case (case balanceAfterTransfer this of
                 None \<Rightarrow> Inl BigIntMixError
               | Some b \<Rightarrow> Inr (amountToChunks b VEILED_BALANCE_CHUNK_SIZE)) of
           Inl e \<Rightarrow> (Inl e, this)
         | Inr cb \<Rightarrow>
      let this = this\<lparr>chunkedBalanceAfterTransfer := cb\<rparr>
      in case mapE (\<lambda>(i, chunk).
                 bindE (new_TwistedEd25519PublicKey (recipientPublicKeyU8 this)) (\<lambda>pk.
                 case randomness this of
                   None \<Rightarrow> Inl UndefinedDereference
                 | Some rs \<Rightarrow> encryptWithPK_bigint H chunk pk (index rs i) (le_bytes 32 (rng i))))
              (enumerate 0 (chunkedAmountToTransfer this)) of
           Inl e \<Rightarrow> (Inl e, this)
         | Inr enc \<Rightarrow>
      let this = this\<lparr>encryptedAmountByRecipient := enc\<rparr>;
          this = this\<lparr>randomness :=
                   Some (case randomness' of
                           Some rs \<Rightarrow> rs
                         | None \<Rightarrow> map rng [4..<4 + VEILED_BALANCE_CHUNK_SIZE])\<rparr>
      in (Inr (), this))"

definition FIAT_SHAMIR_SIGMA_DST :: string where
  "FIAT_SHAMIR_SIGMA_DST = ''AptosVeiledCoin/TransferSubproofFiatShamir''"

definition serializeSigmaProof :: "VeiledTransferSigmaProof \<Rightarrow> bytes" where
  "serializeSigmaProof sigmaProof =
     concat ([alpha1 sigmaProof, alpha2 sigmaProof] @ alpha3List sigmaProof
             @ alpha4List sigmaProof @ [alpha5 sigmaProof] @ alpha6List sigmaProof
             @ [X1 sigmaProof] @ X2List sigmaProof @ X3List sigmaProof @ X4List sigmaProof
             @ [X5 sigmaProof] @ X6List sigmaProof
             @ (case X7List sigmaProof of None \<Rightarrow> [] | Some xs \<Rightarrow> xs))"

text \<open>\<open>subarray(begin, end)\<close> of a typed array and \<open>slice(begin, end)\<close> of an array, which
  cut at the length.\<close>

definition subarray :: "'a list \<Rightarrow> nat \<Rightarrow> nat \<Rightarrow> 'a list" where
  "subarray xs b e = take (e - b) (drop b xs)"

text \<open>The loops \<open>for (let i = 0; i < limit; i += PROOF_CHUNK_SIZE)\<close> of the deserializer.\<close>

function chunk_loop :: "nat \<Rightarrow> nat \<Rightarrow> bytes \<Rightarrow> bytes list" where
  "chunk_loop i limit part =
     (if i < limit
      then subarray part i (i + PROOF_CHUNK_SIZE) # chunk_loop (i + PROOF_CHUNK_SIZE) limit part
      else [])"
  by pat_completeness auto
termination
  by (relation "measure (\<lambda>(i, limit, part). limit - i)") (auto simp: PROOF_CHUNK_SIZE_def)

definition deserializeSigmaProof :: "bytes \<Rightarrow> error + VeiledTransferSigmaProof" where
  "deserializeSigmaProof sigmaProof =
     (if length sigmaProof mod PROOF_CHUNK_SIZE \<noteq> 0 then Inl ProofLengthNotMultiple
      else if length sigmaProof < SIGMA_PROOF_TRANSFER_SIZE then Inl ProofTooShort
      else
        let baseProof = subarray sigmaProof 0 SIGMA_PROOF_TRANSFER_SIZE;
            baseProofArray = chunk_loop 0 SIGMA_PROOF_TRANSFER_SIZE baseProof;
            X7 = (if length sigmaProof > SIGMA_PROOF_TRANSFER_SIZE
                  then let auditorsPartLength = length sigmaProof - SIGMA_PROOF_TRANSFER_SIZE;
                           auditorsPart = drop SIGMA_PROOF_TRANSFER_SIZE sigmaProof
                       in chunk_loop 0 auditorsPartLength auditorsPart
                  else [])
        in Inr \<lparr>alpha1 = baseProofArray ! 0,
                alpha2 = baseProofArray ! 1,
                alpha3List = subarray baseProofArray 2 (2 + VEILED_BALANCE_CHUNK_SIZE),
                alpha4List = subarray baseProofArray 6 (6 + VEILED_BALANCE_CHUNK_SIZE),
                alpha5 = baseProofArray ! 10,
                alpha6List = subarray baseProofArray 11 (11 + VEILED_BALANCE_CHUNK_SIZE),
                X1 = baseProofArray ! 15,
                X2List = subarray baseProofArray 16 (16 + VEILED_BALANCE_CHUNK_SIZE),
                X3List = subarray baseProofArray 20 (20 + VEILED_BALANCE_CHUNK_SIZE),
                X4List = subarray baseProofArray 24 (24 + VEILED_BALANCE_CHUNK_SIZE),
                X5 = baseProofArray ! 28,
                X6List = drop 29 baseProofArray,
                X7List = Some X7\<rparr>)"

text \<open>
  \<open>init\<close>. The result is the exception, if one is thrown, and the object as the call left
  it. \<open>le_bytes 32 (rng i)\<close> are the bytes that \<open>randomBytes(32)\<close> returns for chunk \<open>i\<close>
  when its randomness is \<open>undefined\<close>.
\<close>

definition init ::
  "RistPoint \<Rightarrow> (nat \<Rightarrow> int) \<Rightarrow> VeiledTransfer \<Rightarrow> (error + unit) \<times> VeiledTransfer" where
  "init H rng this =
     (if \<not> isInitialized this then (Inl NotInitialized, this)
      else
        case mapE (\<lambda>el. decryptWithPK el (twistedEd25519PrivateKey this)
                            (Some \<lparr>rangeStart = Some 0, rangeEnd = Some 1000\<rparr>))
               (encryptedActualBalance this) of
          Inl e \<Rightarrow> (Inl e, this)
        | Inr decryptedBalanceChunks \<Rightarrow>
        let decryptedBalance = chunksToAmount decryptedBalanceChunks;
            newBalance = decryptedBalance - amountToTransfer this;
            this = this\<lparr>balanceAfterTransfer := Some newBalance\<rparr>;
            chunkedBalanceAfterWithdraw = amountToChunks newBalance VEILED_BALANCE_CHUNK_SIZE
        in case mapE (\<lambda>(i, chunk).
                   bindE (privateKey_publicKey H (twistedEd25519PrivateKey this)) (\<lambda>pk.
                   case randomness this of
                     None \<Rightarrow> Inl UndefinedDereference
                   | Some rs \<Rightarrow> encryptWithPK_bigint H chunk pk (index rs i) (le_bytes 32 (rng i))))
                (enumerate 0 chunkedBalanceAfterWithdraw) of
             Inl e \<Rightarrow> (Inl e, this)
           | Inr enc \<Rightarrow>
               (Inr (), this\<lparr>encryptedActualBalanceAfterTransfer := Some enc,
                             isInitialized := True\<rparr>))"

text \<open>The sum \<open>\<Sum> 2^(32 i) \<cdot> D\<^sub>i\<close> of \<open>genSigmaProof\<close>, a \<open>reduce\<close> from \<open>ZERO\<close>.\<close>

definition weighted_D_sum :: "TwistedElGamalCiphertext list \<Rightarrow> error + RistPoint" where
  "weighted_D_sum cts =
     reduceE (\<lambda>acc (i, ct).
                bindE (multiply (D ct) (2 ^ nat (int i * CHUNK_BITS_BI))) (\<lambda>w. Inr (add acc w)))
       ZERO (enumerate 0 cts)"

definition ciphertext_bytes :: "TwistedElGamalCiphertext list \<Rightarrow> bytes list" where
  "ciphertext_bytes cts = concat (map (\<lambda>ct. [toRawBytes (C ct), toRawBytes (D ct)]) cts)"

text \<open>
  \<open>genSigmaProof\<close>. \<open>rng 0\<close>, \dots, \<open>rng 14\<close> are the scalars that \<open>ed25519GenRandom\<close> and
  \<open>ed25519GenListOfRandom\<close> return, in the order of the calls;
  \<open>le_bytes 32 (rng (11 + i))\<close> for \<open>i \<ge> 4\<close> are the bytes that \<open>randomBytes(32)\<close> returns for
  chunk \<open>i\<close> when its randomness is \<open>undefined\<close>.
\<close>

definition genSigmaProof ::
  "RistPoint \<Rightarrow> (bytes \<Rightarrow> bytes) \<Rightarrow> (nat \<Rightarrow> int) \<Rightarrow> VeiledTransfer
     \<Rightarrow> error + VeiledTransferSigmaProof" where
  "genSigmaProof H sha512 rng this =
     (if \<not> isInitialized this then Inl NotInitialized
      else if (case randomness this of None \<Rightarrow> False
               | Some rs \<Rightarrow> length rs \<noteq> VEILED_BALANCE_CHUNK_SIZE)
        then Inl InvalidRandomnessLength
      else if amountToTransfer this > 2 ^ nat (2 * CHUNK_BITS_BI) - 1 then Inl AmountTooLarge
      else if (case balanceAfterTransfer this of None \<Rightarrow> True | Some b \<Rightarrow> b = 0)
        then Inl BalanceNotDefined
      else
        let x1 = rng 0;
            x2 = rng 1;
            x3List = map rng [2..<6];
            x4List = map rng [6..<10];
            x5 = rng 10;
            x6List = map rng [11..<15];
            privateKey = twistedEd25519PrivateKey this
        in bindE (fromHex privateKey) (\<lambda>senderPKRistretto.
           bindE (fromHex (recipientPublicKeyU8 this)) (\<lambda>recipientPKRistretto.
           bindE (mapE (\<lambda>(i, chunk).
                    bindE (privateKey_publicKey H privateKey) (\<lambda>pk.
                    case randomness this of
                      None \<Rightarrow> Inl UndefinedDereference
                    | Some rs \<Rightarrow> encryptWithPK_bigint H chunk pk (index rs i)
                                  (le_bytes 32 (rng (11 + i)))))
                  (enumerate 0 (chunkedBalanceAfterTransfer this))) (\<lambda>newEncryptedBalance.
           bindE (weighted_D_sum (encryptedActualBalance this)) (\<lambda>DBal.
           bindE (weighted_D_sum newEncryptedBalance) (\<lambda>DNewBal.
           bindE (multiply BASE x1) (\<lambda>x1G.
           bindE (multiply DBal x2) (\<lambda>x2DBal.
           bindE (multiply DNewBal x2) (\<lambda>x2DNewBal.
           let pX1 = toRawBytes (subtract (add x1G x2DBal) x2DNewBal)
           in bindE (mapE (\<lambda>x3. bindE (multiply senderPKRistretto x3)
                                    (\<lambda>p. Inr (toRawBytes p))) x3List) (\<lambda>pX2List.
           bindE (mapE (\<lambda>x3. bindE (multiply recipientPKRistretto x3)
                                 (\<lambda>p. Inr (toRawBytes p))) x3List) (\<lambda>pX3List.
           bindE (mapE (\<lambda>(i, x4). bindE (multiply BASE x4) (\<lambda>x4G.
                    bindE (multiply H (x3List ! i)) (\<lambda>x3H. Inr (toRawBytes (add x4G x3H)))))
                  (enumerate 0 x4List)) (\<lambda>pX4List.
           bindE (multiply H x5) (\<lambda>x5H.
           let pX5 = toRawBytes x5H
           in bindE (mapE (\<lambda>(i, x6). bindE (multiply BASE x6) (\<lambda>x6G.
                    bindE (multiply H (x3List ! i)) (\<lambda>x3H. Inr (toRawBytes (add x6G x3H)))))
                  (enumerate 0 x6List)) (\<lambda>pX6List.
           bindE (mapE (\<lambda>pk. mapE (\<lambda>x3. bindE (fromHex pk) (\<lambda>q.
                                 bindE (multiply q x3) (\<lambda>p. Inr (toRawBytes p)))) x3List)
                  (auditorsU8PublicKeys this)) (\<lambda>pX7List.
           bindE (privateKey_publicKey H privateKey) (\<lambda>senderPublicKey.
           let p = genFiatShamirChallenge sha512
                     ([utf8ToBytes FIAT_SHAMIR_SIGMA_DST, toRawBytes BASE, toRawBytes H,
                       senderPublicKey, recipientPublicKeyU8 this]
                      @ ciphertext_bytes (encryptedActualBalance this)
                      @ ciphertext_bytes newEncryptedBalance
                      @ ciphertext_bytes (encryptedAmountByRecipient this)
                      @ concat (auditorsDList this)
                      @ [pX1] @ pX2List @ pX3List @ pX4List @ [pX5] @ pX6List
                      @ concat pX7List);
               sLE = bytesToNumberLE privateKey
           in bindE (ed25519InvertN sLE) (\<lambda>invertSLE.
           bindE (case balanceAfterTransfer this of
                    None \<Rightarrow> Inl BigIntMixError
                  | Some b \<Rightarrow> Inr (ed25519modN (x1 - p * b))) (\<lambda>a1.
           let a2 = ed25519modN (x2 - p * sLE)
           in bindE (mapE (\<lambda>(i, x3).
                      case randomness this of
                        None \<Rightarrow> Inl UndefinedDereference
                      | Some rs \<Rightarrow> (case index rs i of
                                       None \<Rightarrow> Inl BigIntMixError
                                     | Some r \<Rightarrow> Inr (ed25519modN (x3 - p * r))))
                    (enumerate 0 x3List)) (\<lambda>a3List.
           bindE (mapE (\<lambda>(i, x4).
                      case index (chunkedAmountToTransfer this) i of
                        None \<Rightarrow> Inl BigIntMixError
                      | Some c \<Rightarrow> Inr (ed25519modN (x4 - p * c)))
                    (enumerate 0 x4List)) (\<lambda>a4List.
           let a5 = ed25519modN (x5 - p * invertSLE)
           in bindE (mapE (\<lambda>(i, x6).
                      case index (chunkedBalanceAfterTransfer this) i of
                        None \<Rightarrow> Inl BigIntMixError
                      | Some c \<Rightarrow> Inr (ed25519modN (x6 - p * c)))
                    (enumerate 0 x6List)) (\<lambda>a6List.
           bindE (numberToBytesLE a1 32) (\<lambda>b1.
           bindE (numberToBytesLE a2 32) (\<lambda>b2.
           bindE (mapE (\<lambda>a. numberToBytesLE a 32) a3List) (\<lambda>b3List.
           bindE (mapE (\<lambda>a. numberToBytesLE a 32) a4List) (\<lambda>b4List.
           bindE (numberToBytesLE a5 32) (\<lambda>b5.
           bindE (mapE (\<lambda>a. numberToBytesLE a 32) a6List) (\<lambda>b6List.
           Inr \<lparr>alpha1 = b1, alpha2 = b2, alpha3List = b3List, alpha4List = b4List,
                alpha5 = b5, alpha6List = b6List, X1 = pX1, X2List = pX2List,
                X3List = pX3List, X4List = pX4List, X5 = pX5, X6List = pX6List,
                X7List = Some (concat pX7List)\<rparr>)))))))))))))))))))))))))))"

text \<open>
  The range proof backend (a WebAssembly module behind \<open>generateRangeZKP\<close>) is a
  parameter: it returns the proof and the commitment, or rejects. The inputs of all
  proofs are computed first, as the callbacks of the two \<open>map\<close> calls do before any
  promise is awaited.
\<close>

record RangeProofInputs =
  rangeValue :: int
  rangeBlinding :: bytes
  valBase :: bytes
  randBase :: bytes
  bits :: "nat option"

record VeiledTransferRangeProof =
  rangeProofAmount :: "bytes list"
  rangeProofNewBalance :: "bytes list"

definition genRangeProof ::
  "RistPoint \<Rightarrow> (RangeProofInputs \<Rightarrow> error + bytes \<times> bytes) \<Rightarrow> VeiledTransfer
     \<Rightarrow> error + VeiledTransferRangeProof" where
  "genRangeProof H generateRangeZKP this =
     (if \<not> isInitialized this then Inl NotInitialized
      else case encryptedActualBalanceAfterTransfer this of
        None \<Rightarrow> Inl NewBalanceNotDefined
      | Some newBalance \<Rightarrow>
      case balanceAfterTransfer this of
        None \<Rightarrow> Inl BalanceNotDefined
      | Some b \<Rightarrow>
      if b = 0 then Inl BalanceNotDefined
      else
        bindE (mapE (\<lambda>(i, chunk).
                 case randomness this of
                   None \<Rightarrow> Inl UndefinedDereference
                 | Some rs \<Rightarrow> (case index rs i of
                                  None \<Rightarrow> Inl UndefinedDereference
                                | Some r \<Rightarrow>
                   bindE (numberToBytesLE r 32) (\<lambda>rBytes.
                   Inr \<lparr>rangeValue = chunk, rangeBlinding = rBytes,
                      valBase = toRawBytes BASE, randBase = toRawBytes H, bits = None\<rparr>)))
               (enumerate 0 (amountToChunks (amountToTransfer this) VEILED_BALANCE_CHUNK_SIZE)))
          (\<lambda>amountInputs.
        bindE (mapE (\<lambda>(i, chunk).
                 case index newBalance i of
                   None \<Rightarrow> Inl UndefinedDereference
                 | Some ct \<Rightarrow>
                   Inr \<lparr>rangeValue = chunk,
                      rangeBlinding = twistedEd25519PrivateKey this,
                      valBase = toRawBytes BASE, randBase = toRawBytes (D ct), bits = None\<rparr>)
               (enumerate 0 (amountToChunks b VEILED_BALANCE_CHUNK_SIZE)))
          (\<lambda>balanceInputs.
        bindE (mapE generateRangeZKP amountInputs) (\<lambda>amountProofs.
        bindE (mapE generateRangeZKP balanceInputs) (\<lambda>balanceProofs.
        Inr \<lparr>rangeProofAmount = map fst amountProofs,
             rangeProofNewBalance = map fst balanceProofs\<rparr>)))))"


section \<open>The withdraw sigma proof (veiledOperationZKP/sigmaProofs.ts)\<close>












section \<open>Facts about bytes, scalars and points\<close>

declare invert_loop.simps [simp del] decrypt_search.simps [simp del] le_bytes.simps [simp del] hex_digits.simps [simp del]

lemma le_bytes_0 [simp]: "le_bytes 0 n = []" by (simp add: le_bytes.simps)
lemma le_bytes_Suc [simp]: "le_bytes (Suc k) n = word_of_int (n mod 256) # le_bytes k (n div 256)"
  by (simp add: le_bytes.simps [of "Suc k"])

lemma CURVE_n_pos: "0 < CURVE_n" by (simp add: CURVE_n_def)
lemma CURVE_n_gt1: "1 < CURVE_n" by (simp add: CURVE_n_def)
lemma CURVE_n_gt_chunk: "2 ^ 32 < CURVE_n" by (simp add: CURVE_n_def)
lemma CURVE_n_lt_256: "CURVE_n < 256 ^ 32" by (simp add: CURVE_n_def)

lemma nmod_eq: "0 < b \<Longrightarrow> nmod a b = a mod b"
proof -
  assume b: "0 < b"
  show ?thesis
  proof (cases "0 \<le> a")
    case True
    then show ?thesis using b by (simp add: nmod_def js_rem_def sgn_if)
  next
    case False
    then have a: "a < 0" by simp
    have m: "a mod b = (- (- a)) mod b" by simp
    show ?thesis
      using a b unfolding m nmod_def js_rem_def Let_def
      by (subst zmod_zminus1_eq_if) (auto simp: sgn_if not_le dest: pos_mod_sign [of b "-a"] simp del: minus_minus)
  qed
qed

lemma nmod_CURVE_n [simp]: "nmod a CURVE_n = a mod CURVE_n"
  by (rule nmod_eq [OF CURVE_n_pos])

lemma length_le_bytes [simp]: "length (le_bytes k n) = k"
  by (induction k arbitrary: n) simp_all

lemma bytesToNumberLE_le_bytes: "0 \<le> n \<Longrightarrow> bytesToNumberLE (le_bytes k n) = n mod 256 ^ k"
proof (induction k arbitrary: n)
  case 0 then show ?case by simp
next
  case (Suc k)
  have "0 \<le> n div 256" using Suc.prems by simp
  then have "bytesToNumberLE (le_bytes k (n div 256)) = (n div 256) mod 256 ^ k" by (rule Suc.IH)
  then show ?case using Suc.prems
    by (simp add: uint_word_of_int take_bit_eq_mod zmod_zmult2_eq)
qed

lemma bytesToNumberLE_nonneg: "0 \<le> bytesToNumberLE bs"
  by (induction bs) simp_all

lemma fromHex_toRawBytes [simp]: "fromHex (toRawBytes P) = Inr (RistPoint (dlog P mod CURVE_n))"
proof -
  have r: "0 \<le> dlog P mod CURVE_n" "dlog P mod CURVE_n < CURVE_n"
    using CURVE_n_pos by simp_all
  then have "dlog P mod CURVE_n < 256 ^ 32" using CURVE_n_lt_256 by linarith
  then have "bytesToNumberLE (le_bytes 32 (dlog P mod CURVE_n)) = dlog P mod CURVE_n"
    using r(1) by (simp add: bytesToNumberLE_le_bytes)
  then show ?thesis using r(2) by (simp add: fromHex_def toRawBytes_def)
qed

lemma invert_loop_invariant:
  "invert_loop a b x y u v = (g, x') \<Longrightarrow> M dvd (a - u * N) \<Longrightarrow> M dvd (b - x * N)
   \<Longrightarrow> M dvd (g - x' * N)"
proof (induction a b x y u v rule: invert_loop.induct)
  case (1 a b x y u v)
  show ?case
  proof (cases "a = 0")
    case True
    then show ?thesis using "1.prems" by (simp add: invert_loop.simps [of 0])
  next
    case False
    have bm: "b mod a = b - (b div a) * a"
      by (simp add: minus_div_mult_eq_mod)
    have eq: "b mod a - (x - u * (b div a)) * N = (b - x * N) - (b div a) * (a - u * N)"
      unfolding bm by (simp only: algebra_simps)
    have "M dvd (b div a) * (a - u * N)"
      using "1.prems"(2) by (rule dvd_mult)
    then have "M dvd (b mod a - (x - u * (b div a)) * N)"
      unfolding eq using "1.prems"(3) by (rule dvd_diff [rotated])
    moreover have "invert_loop (b mod a) a u v (x - u * (b div a)) (y - v * (b div a)) = (g, x')"
      using False "1.prems"(1) by (subst (asm) invert_loop.simps) (simp add: Let_def)
    ultimately show ?thesis
      using "1.prems"(2) by (intro "1.IH" [OF False refl refl refl refl]) simp_all
  qed
qed

lemma invert_correct:
  assumes "invert a M = Inr x"
  shows "(a * x) mod M = 1 mod M \<and> 0 \<le> x \<and> x < M \<and> 0 < M"
proof -
  from assms have M: "0 < M"
    by (auto simp: invert_def split: if_splits)
  from assms obtain x0 where loop: "invert_loop (a mod M) M 0 1 1 0 = (1, x0)" and x: "x = x0 mod M"
    using M by (auto simp: invert_def nmod_eq split: if_splits prod.splits)
  have "M dvd (1 - x0 * a)"
    using invert_loop_invariant [OF loop, of M a] by (simp add: mod_eq_dvd_iff [symmetric])
  then have "(x0 * a) mod M = 1 mod M"
    by (simp add: mod_eq_dvd_iff dvd_diff_commute)
  then have "(a * x) mod M = 1 mod M"
    unfolding x by (simp add: mod_mult_right_eq mult.commute)
  then show ?thesis using M x by simp
qed

lemma dlog_add_BASE:
  assumes "dlog sp mod CURVE_n = a mod CURVE_n"
  shows "dlog (add sp BASE) mod CURVE_n = (a + 1) mod CURVE_n"
proof -
  have "(dlog sp + 1) mod CURVE_n = (dlog sp mod CURVE_n + 1) mod CURVE_n"
    by (simp only: mod_add_left_eq)
  also have "\<dots> = (a + 1) mod CURVE_n"
    unfolding assms by (simp only: mod_add_left_eq)
  finally show ?thesis by (simp add: add_def BASE_def)
qed

lemma decrypt_search_Inr:
  "decrypt_search mH e a sp = Inr m \<Longrightarrow> dlog sp mod CURVE_n = a mod CURVE_n
   \<Longrightarrow> a \<le> m \<and> (m \<le> e \<or> m = a) \<and> dlog mH mod CURVE_n = m mod CURVE_n
       \<and> (\<forall>k. a \<le> k \<and> k < m \<longrightarrow> k mod CURVE_n \<noteq> dlog mH mod CURVE_n)"
proof (induction mH e a sp rule: decrypt_search.induct)
  case (1 mH e a sp)
  show ?case
  proof (cases "equals mH sp")
    case True
    then show ?thesis using "1.prems" by (simp add: equals_def decrypt_search.simps [of mH e a])
  next
    case False
    then have ne: "a mod CURVE_n \<noteq> dlog mH mod CURVE_n"
      using "1.prems"(2) by (simp add: equals_def)
    from False "1.prems"(1) have lt: "\<not> e \<le> a"
      by (subst (asm) decrypt_search.simps) (auto split: if_splits)
    have sp': "dlog (add sp BASE) mod CURVE_n = (a + 1) mod CURVE_n"
      using "1.prems"(2) by (rule dlog_add_BASE)
    from False lt "1.prems"(1) have "decrypt_search mH e (a + 1) (add sp BASE) = Inr m"
      by (subst (asm) decrypt_search.simps) simp
    from "1.IH" [OF False lt this sp']
    have ih: "a + 1 \<le> m" "m \<le> e \<or> m = a + 1" "dlog mH mod CURVE_n = m mod CURVE_n"
      "\<forall>k. a + 1 \<le> k \<and> k < m \<longrightarrow> k mod CURVE_n \<noteq> dlog mH mod CURVE_n"
      by blast+
    have "\<forall>k. a \<le> k \<and> k < m \<longrightarrow> k mod CURVE_n \<noteq> dlog mH mod CURVE_n"
    proof (intro allI impI)
      fix k assume k: "a \<le> k \<and> k < m"
      show "k mod CURVE_n \<noteq> dlog mH mod CURVE_n"
      proof (cases "k = a")
        case True then show ?thesis using ne by simp
      next
        case False then show ?thesis using k ih(4) by simp
      qed
    qed
    then show ?thesis using ih lt by auto
  qed
qed

lemma decrypt_search_Inl:
  "decrypt_search mH e a sp = Inl err \<Longrightarrow> dlog sp mod CURVE_n = a mod CURVE_n
   \<Longrightarrow> err = DecryptionRangeError
       \<and> (\<forall>k. a \<le> k \<and> (k \<le> e \<or> k = a) \<longrightarrow> k mod CURVE_n \<noteq> dlog mH mod CURVE_n)"
proof (induction mH e a sp rule: decrypt_search.induct)
  case (1 mH e a sp)
  show ?case
  proof (cases "equals mH sp")
    case True
    then show ?thesis using "1.prems" by (simp add: decrypt_search.simps [of mH e a])
  next
    case False
    then have ne: "a mod CURVE_n \<noteq> dlog mH mod CURVE_n"
      using "1.prems"(2) by (simp add: equals_def)
    show ?thesis
    proof (cases "e \<le> a")
      case True
      then have err: "err = DecryptionRangeError" using False "1.prems"(1)
        by (subst (asm) decrypt_search.simps) simp
      have "\<forall>k. a \<le> k \<and> (k \<le> e \<or> k = a) \<longrightarrow> k = a"
        using True by auto
      then show ?thesis using err ne by blast
    next
      case lt: False
      have sp': "dlog (add sp BASE) mod CURVE_n = (a + 1) mod CURVE_n"
        using "1.prems"(2) by (rule dlog_add_BASE)
      from False lt "1.prems"(1) have "decrypt_search mH e (a + 1) (add sp BASE) = Inl err"
        by (subst (asm) decrypt_search.simps) simp
      from "1.IH" [OF False lt this sp']
      have ih: "err = DecryptionRangeError"
        "\<forall>k. a + 1 \<le> k \<and> (k \<le> e \<or> k = a + 1) \<longrightarrow> k mod CURVE_n \<noteq> dlog mH mod CURVE_n"
        by blast+
      have "\<forall>k. a \<le> k \<and> (k \<le> e \<or> k = a) \<longrightarrow> k mod CURVE_n \<noteq> dlog mH mod CURVE_n"
      proof (intro allI impI)
        fix k assume k: "a \<le> k \<and> (k \<le> e \<or> k = a)"
        show "k mod CURVE_n \<noteq> dlog mH mod CURVE_n"
        proof (cases "k = a")
          case True then show ?thesis using ne by simp
        next
          case False then show ?thesis using k ih(2) by simp
        qed
      qed
      then show ?thesis using ih(1) by simp
    qed
  qed
qed


lemma bindE_Inr [simp]: "bindE (Inr x) f = f x" by (simp add: bindE_def)
lemma bindE_Inl [simp]: "bindE (Inl e) f = Inl e" by (simp add: bindE_def)

lemma equals_smul_BASE: "equals P (smul k BASE) = (dlog P mod CURVE_n = k mod CURVE_n)"
  by (simp add: equals_def smul_def BASE_def)

lemma equals_ZERO: "equals P ZERO = (dlog P mod CURVE_n = 0)"
  by (simp add: equals_def ZERO_def)

lemma multiply_ok: "1 \<le> k \<Longrightarrow> k < CURVE_n \<Longrightarrow> multiply P k = Inr (smul k P)"
  by (simp add: multiply_def)

lemma mod_nonzero_range:
  assumes "x mod CURVE_n \<noteq> 0"
  shows "1 \<le> x mod CURVE_n" "x mod CURVE_n < CURVE_n"
proof -
  have "0 \<le> x mod CURVE_n" by (simp add: CURVE_n_pos)
  with assms show "1 \<le> x mod CURVE_n" by linarith
  show "x mod CURVE_n < CURVE_n" by (simp add: CURVE_n_pos)
qed

definition computed_mH :: "TwistedElGamalCiphertext \<Rightarrow> bytes \<Rightarrow> RistPoint" where
  "computed_mH ct sk = subtract (RistPoint (dlog (C ct) mod CURVE_n))
      (smul (bytesToNumberLE sk mod CURVE_n) (RistPoint (dlog (D ct) mod CURVE_n)))"

lemma computed_mH_dlog:
  "dlog (computed_mH ct sk) mod CURVE_n = dlog (message_point ct sk) mod CURVE_n"
  by (simp add: computed_mH_def message_point_def subtract_def smul_def mod_simps)

lemma decryptWithPK_eq:
  assumes "0 \<le> lo" "lo < CURVE_n" "bytesToNumberLE sk mod CURVE_n \<noteq> 0"
  shows "decryptWithPK ct sk (Some \<lparr>rangeStart = Some lo, rangeEnd = Some hi\<rparr>) =
     (if lo = 0 \<and> equals (computed_mH ct sk) ZERO then Inr 0
      else decrypt_search (computed_mH ct sk) hi (if lo = 0 then 1 else lo)
             (smul (if lo = 0 then 1 else lo) BASE))"
proof -
  have s: "1 \<le> bytesToNumberLE sk mod CURVE_n" "bytesToNumberLE sk mod CURVE_n < CURVE_n"
    using assms(3) by (rule mod_nonzero_range)+
  have m1: "multiply BASE 1 = Inr (smul 1 BASE)"
    using CURVE_n_gt1 by (simp add: multiply_def)
  have mlo: "lo \<noteq> 0 \<Longrightarrow> multiply BASE lo = Inr (smul lo BASE)"
    using assms(1,2) by (simp add: multiply_def)
  show ?thesis
    unfolding decryptWithPK_def
    by (simp add: multiply_ok [OF s] m1 mlo computed_mH_def Let_def)
qed

lemma decrypt_search_finds:
  assumes sp: "dlog sp mod CURVE_n = a mod CURVE_n"
    and am: "a \<le> m" and me: "m \<le> e"
    and hit: "dlog mH mod CURVE_n = m mod CURVE_n"
    and least: "\<forall>k. a \<le> k \<and> k < m \<longrightarrow> k mod CURVE_n \<noteq> m mod CURVE_n"
  shows "decrypt_search mH e a sp = Inr m"
proof (cases "decrypt_search mH e a sp")
  case (Inl err)
  from decrypt_search_Inl [OF Inl sp]
  have "\<forall>k. a \<le> k \<and> (k \<le> e \<or> k = a) \<longrightarrow> k mod CURVE_n \<noteq> dlog mH mod CURVE_n" ..
  then have "a \<le> m \<and> (m \<le> e \<or> m = a) \<longrightarrow> m mod CURVE_n \<noteq> dlog mH mod CURVE_n" ..
  with am me hit show ?thesis by simp
next
  case (Inr m')
  note R = decrypt_search_Inr [OF Inr sp]
  note m' = R [THEN conjunct1] R [THEN conjunct2, THEN conjunct2, THEN conjunct1]
    R [THEN conjunct2, THEN conjunct2, THEN conjunct2]
  have "\<not> m' < m"
  proof
    assume "m' < m"
    with least m'(1) have "m' mod CURVE_n \<noteq> m mod CURVE_n" by simp
    with m'(2) hit show False by simp
  qed
  moreover have "\<not> m < m'"
  proof
    assume "m < m'"
    with m'(3) am have "m mod CURVE_n \<noteq> dlog mH mod CURVE_n" by simp
    with hit show False by simp
  qed
  ultimately show ?thesis using Inr by simp
qed

lemma small_mod: "0 \<le> k \<Longrightarrow> k < CURVE_n \<Longrightarrow> k mod CURVE_n = k"
  by simp

lemma cancel_key:
  assumes "(s * i) mod CURVE_n = 1 mod CURVE_n"
  shows "(m + h * r - h * i * r * s) mod CURVE_n = m mod CURVE_n"
proof -
  have "(h * i * r * s) mod CURVE_n = ((h * r) * (s * i)) mod CURVE_n"
    by (simp add: mult_ac)
  also have "\<dots> = ((h * r) * ((s * i) mod CURVE_n)) mod CURVE_n"
    by (simp only: mod_mult_right_eq)
  also have "\<dots> = (h * r) mod CURVE_n"
    unfolding assms by (simp only: mod_mult_right_eq mult_1_right)
  finally have A: "(h * i * r * s) mod CURVE_n = (h * r) mod CURVE_n" .
  have "(m + h * r - h * i * r * s) mod CURVE_n = (m + h * r - (h * i * r * s) mod CURVE_n) mod CURVE_n"
    by (simp only: mod_diff_right_eq)
  also have "\<dots> = (m + h * r - h * r) mod CURVE_n"
    unfolding A by (simp only: mod_diff_right_eq)
  finally show ?thesis by simp
qed

lemma publicKey_Inr:
  assumes "privateKey_publicKey H sk = Inr pk"
  shows "\<exists>i. (bytesToNumberLE sk * i) mod CURVE_n = 1 mod CURVE_n
             \<and> fromHex pk = Inr (RistPoint ((dlog H * i) mod CURVE_n))"
proof -
  from assms obtain i where i: "invert (bytesToNumberLE sk) CURVE_n = Inr i"
    by (cases "invert (bytesToNumberLE sk) CURVE_n") (simp_all add: privateKey_publicKey_def)
  from invert_correct [OF i] have ic: "(bytesToNumberLE sk * i) mod CURVE_n = 1 mod CURVE_n"
    "0 \<le> i" "i < CURVE_n" by simp_all
  from assms i have "pk = toRawBytes (smul i H)"
    by (auto simp: privateKey_publicKey_def multiply_def split: if_splits)
  then have "fromHex pk = Inr (RistPoint ((dlog H * i) mod CURVE_n))"
    by (simp add: smul_def)
  with ic(1) show ?thesis by blast
qed

lemma key_nonzero:
  assumes "(s * i) mod CURVE_n = 1 mod CURVE_n"
  shows "s mod CURVE_n \<noteq> 0"
proof
  assume z: "s mod CURVE_n = 0"
  have "(s * i) mod CURVE_n = ((s mod CURVE_n) * i) mod CURVE_n"
    by (simp only: mod_mult_left_eq)
  then have "(s * i) mod CURVE_n = 0" unfolding z by simp
  with assms show False using CURVE_n_gt1 by simp
qed

lemma encryptWithPK_eq:
  assumes len: "length r = 32" and r': "bytesToNumberLE r mod CURVE_n = r'" "r' \<noteq> 0"
    and m: "0 \<le> m" "m < CURVE_n" and pk: "fromHex pk = Inr P"
  shows "encryptWithPK H m pk r =
      Inr \<lparr>C = RistPoint ((m + dlog H * r') mod CURVE_n),
           D = RistPoint ((dlog P * r') mod CURVE_n)\<rparr>"
proof -
  have r: "1 \<le> r'" "r' < CURVE_n"
    using mod_nonzero_range [of "bytesToNumberLE r"] r' by simp_all
  have mG: "(if m = 0 then Inr ZERO else multiply BASE m) = Inr (RistPoint (m mod CURVE_n))"
    using m by (simp add: multiply_def smul_def BASE_def ZERO_def)
  have "encryptWithPK H m pk r =
      Inr \<lparr>C = RistPoint (dlog (add (RistPoint (m mod CURVE_n)) (smul r' H)) mod CURVE_n),
           D = RistPoint (dlog (smul r' P) mod CURVE_n)\<rparr>"
    unfolding encryptWithPK_def
    using len m pk
    by (simp add: ensureBytes_def r'(1) multiply_ok [OF r] mG new_TwistedElGamalCiphertext_def Let_def)
  moreover have "dlog (add (RistPoint (m mod CURVE_n)) (smul r' H)) mod CURVE_n
      = (m + dlog H * r') mod CURVE_n"
    by (simp add: add_def smul_def mod_simps)
  moreover have "dlog (smul r' P) mod CURVE_n = (dlog P * r') mod CURVE_n"
    by (simp add: smul_def)
  ultimately show ?thesis by simp
qed


lemma equals_message_point:
  "equals (message_point ct sk) Q = equals (computed_mH ct sk) Q"
  by (simp add: equals_def computed_mH_dlog)







section \<open>Claims about Twisted ElGamal\<close>

text \<open>
  C1 (as amended). For every amount \<open>m\<close> with \<open>0 \<le> m < 2^32\<close>, every key pair (the public
  key \<open>pk\<close> derived from the private key \<open>sk\<close>) and every 32 byte randomness \<open>r\<close>
  whose value is not a multiple of the group order, \<open>encryptWithPK\<close> returns a ciphertext
  and \<open>decryptWithPK\<close> with the range from 0 to \<open>2^32\<close> returns \<open>m\<close> on it.
\<close>

theorem encrypt_decrypt_roundtrip:
  assumes key: "privateKey_publicKey H sk = Inr pk"
    and m: "0 \<le> m" "m < 2 ^ 32"
    and r: "length r = 32" "bytesToNumberLE r mod CURVE_n \<noteq> 0"
  shows "\<exists>ct. encryptWithPK H m pk r = Inr ct
            \<and> decryptWithPK ct sk (Some \<lparr>rangeStart = Some 0, rangeEnd = Some (2 ^ 32)\<rparr>) = Inr m"
proof -
  from publicKey_Inr [OF key] obtain i where
    i: "(bytesToNumberLE sk * i) mod CURVE_n = 1 mod CURVE_n"
    and pk: "fromHex pk = Inr (RistPoint ((dlog H * i) mod CURVE_n))" by (elim exE conjE)
  have mn: "m < CURVE_n" using m(2) CURVE_n_gt_chunk by linarith
  define r' where "r' = bytesToNumberLE r mod CURVE_n"
  define ct where "ct = \<lparr>C = RistPoint ((m + dlog H * r') mod CURVE_n),
           D = RistPoint ((dlog (RistPoint ((dlog H * i) mod CURVE_n)) * r') mod CURVE_n)\<rparr>"
  have enc: "encryptWithPK H m pk r = Inr ct"
    unfolding ct_def using r(2) by (intro encryptWithPK_eq [OF r(1) _ _ m(1) mn pk]) (simp_all add: r'_def)
  have "dlog (message_point ct sk) mod CURVE_n
      = (m + dlog H * r' - dlog H * i * r' * bytesToNumberLE sk) mod CURVE_n"
    by (simp add: message_point_def ct_def subtract_def smul_def mod_simps)
  also have "\<dots> = m mod CURVE_n" by (rule cancel_key [OF i])
  finally have mp: "dlog (computed_mH ct sk) mod CURVE_n = m mod CURVE_n"
    by (simp add: computed_mH_dlog)
  have dec: "decryptWithPK ct sk (Some \<lparr>rangeStart = Some 0, rangeEnd = Some (2 ^ 32)\<rparr>) =
     (if equals (computed_mH ct sk) ZERO then Inr 0
      else decrypt_search (computed_mH ct sk) (2 ^ 32) 1 (smul 1 BASE))"
    using decryptWithPK_eq [where lo = 0 and ct = ct and hi = "2 ^ 32" and sk = sk]
      CURVE_n_pos key_nonzero [OF i] by simp
  have "decryptWithPK ct sk (Some \<lparr>rangeStart = Some 0, rangeEnd = Some (2 ^ 32)\<rparr>) = Inr m"
  proof (cases "m = 0")
    case True
    then show ?thesis using mp by (subst dec) (simp add: equals_ZERO)
  next
    case False
    then have m1: "1 \<le> m" using m(1) by simp
    have ne: "\<not> equals (computed_mH ct sk) ZERO"
      using mp False m(1) mn by (simp add: equals_ZERO)
    have least: "\<forall>k. 1 \<le> k \<and> k < m \<longrightarrow> k mod CURVE_n \<noteq> m mod CURVE_n"
      using mn m(1) by auto
    have "decrypt_search (computed_mH ct sk) (2 ^ 32) 1 (smul 1 BASE) = Inr m"
      using m(2) by (intro decrypt_search_finds [OF _ m1 _ mp least]) (simp_all add: smul_def BASE_def)
    then show ?thesis using ne by (subst dec) simp
  qed
  with enc show ?thesis by simp
qed

text \<open>The theorem at the private key 2, the amount 5 and the randomness 9.\<close>

theorem encrypt_decrypt_roundtrip_witness:
  "\<exists>pk ct. privateKey_publicKey (RistPoint 7) (le_bytes 32 2) = Inr pk
     \<and> encryptWithPK (RistPoint 7) 5 pk (le_bytes 32 9) = Inr ct
     \<and> decryptWithPK ct (le_bytes 32 2) (Some \<lparr>rangeStart = Some 0, rangeEnd = Some (2 ^ 32)\<rparr>) = Inr 5"
proof -
  have k: "privateKey_publicKey (RistPoint 7) (le_bytes 32 2)
      = Inr (toRawBytes (smul ((CURVE_n + 1) div 2) (RistPoint 7)))"
    by code_simp
  have r: "bytesToNumberLE (le_bytes 32 9) mod CURVE_n \<noteq> 0"
    by code_simp
  show ?thesis
    using encrypt_decrypt_roundtrip [OF k, of 5 "le_bytes 32 9"] k r by simp
qed

text \<open>
  C1 as stated fails on the randomness of 32 zero bytes: \<open>r\<close> is 0 there, and
  \<open>H_RISTRETTO.multiply(0)\<close> throws, so that no ciphertext is returned.
\<close>

theorem encrypt_zero_randomness_counterexample:
  "privateKey_publicKey (RistPoint 7) (le_bytes 32 2)
      = Inr (toRawBytes (smul ((CURVE_n + 1) div 2) (RistPoint 7)))
   \<and> length (replicate 32 (0 :: 8 word)) = 32
   \<and> encryptWithPK (RistPoint 7) 5 (toRawBytes (smul ((CURVE_n + 1) div 2) (RistPoint 7)))
         (replicate 32 0) = Inl InvalidScalar"
  by code_simp

text \<open>
  C2 (as amended). With a range \<open>0 \<le> lo < hi\<close>, \<open>lo\<close> below the group order, and a private
  key that is not 0 modulo the group order, \<open>decryptWithPK\<close> returns the least \<open>m \<ge> lo\<close> with
  \<open>C - s \<cdot> D = m \<cdot> G\<close>, and this \<open>m\<close> lies in the closed interval from \<open>lo\<close> to \<open>hi\<close>
  (\<open>hi\<close> itself is tried); it returns 0 when \<open>lo = 0\<close> and \<open>C - s \<cdot> D\<close> is the identity;
  it throws the range error exactly when no \<open>m\<close> of the closed interval satisfies the
  equation, and throws no other error.
\<close>

theorem decryptWithPK_search:
  assumes lo: "0 \<le> lo" "lo < hi" "lo < CURVE_n" and sk: "bytesToNumberLE sk mod CURVE_n \<noteq> 0"
  shows "(\<forall>m. decryptWithPK ct sk (Some \<lparr>rangeStart = Some lo, rangeEnd = Some hi\<rparr>) = Inr m \<longrightarrow>
             lo \<le> m \<and> m \<le> hi \<and> equals (message_point ct sk) (smul m BASE)
             \<and> (\<forall>k. lo \<le> k \<and> k < m \<longrightarrow> \<not> equals (message_point ct sk) (smul k BASE)))
       \<and> (lo = 0 \<and> equals (message_point ct sk) ZERO \<longrightarrow>
             decryptWithPK ct sk (Some \<lparr>rangeStart = Some lo, rangeEnd = Some hi\<rparr>) = Inr 0)
       \<and> ((decryptWithPK ct sk (Some \<lparr>rangeStart = Some lo, rangeEnd = Some hi\<rparr>) = Inl DecryptionRangeError)
            = (\<forall>k. lo \<le> k \<and> k \<le> hi \<longrightarrow> \<not> equals (message_point ct sk) (smul k BASE)))
       \<and> (\<forall>e. decryptWithPK ct sk (Some \<lparr>rangeStart = Some lo, rangeEnd = Some hi\<rparr>) = Inl e \<longrightarrow>
             e = DecryptionRangeError)"
proof -
  define R where "R = decryptWithPK ct sk (Some \<lparr>rangeStart = Some lo, rangeEnd = Some hi\<rparr>)"
  define mH where "mH = computed_mH ct sk"
  define E where "E k = (dlog mH mod CURVE_n = k mod CURVE_n)" for k
  define a where "a = (if lo = 0 then 1 else lo)"
  have eqE: "equals (message_point ct sk) (smul k BASE) = E k" for k
    by (simp add: equals_smul_BASE E_def mH_def computed_mH_dlog)
  have eq0: "equals (message_point ct sk) ZERO = E 0"
    by (simp add: equals_ZERO E_def mH_def computed_mH_dlog)
  have eq0': "equals mH ZERO = E 0"
    by (simp add: equals_ZERO E_def)
  define sc where "sc = (lo = 0 \<and> E 0)"
  have R: "R = (if sc then Inr 0 else decrypt_search mH hi a (smul a BASE))"
    unfolding R_def mH_def a_def sc_def eq0' [unfolded mH_def, symmetric]
    by (rule decryptWithPK_eq [OF lo(1) lo(3) sk])
  have a: "lo \<le> a" "a \<le> hi" "a \<le> lo + 1" using lo by (auto simp: a_def)
  have sp: "dlog (smul a BASE) mod CURVE_n = a mod CURVE_n"
    by (simp add: smul_def BASE_def)
  have below: "\<not> E k" if "\<not> sc" "lo \<le> k" "k < a" for k
  proof -
    from that(2,3) a(3) have "k = lo" by simp
    moreover from that(2,3) have "lo \<noteq> a" by simp
    then have "lo = 0" by (auto simp: a_def split: if_splits)
    ultimately show ?thesis using that(1) by (simp add: sc_def)
  qed
  have p1: "lo \<le> m \<and> m \<le> hi \<and> E m \<and> (\<forall>k. lo \<le> k \<and> k < m \<longrightarrow> \<not> E k)" if Rm: "R = Inr m" for m
  proof (cases sc)
    case True
    then have "m = 0" using Rm R by simp
    then show ?thesis using True lo by (auto simp: sc_def)
  next
    case False
    then have "decrypt_search mH hi a (smul a BASE) = Inr m" using Rm R by simp
    note S = decrypt_search_Inr [OF this sp]
    note s = S [THEN conjunct1] S [THEN conjunct2, THEN conjunct1]
      S [THEN conjunct2, THEN conjunct2, THEN conjunct1]
      S [THEN conjunct2, THEN conjunct2, THEN conjunct2]
    have "\<not> E k" if "lo \<le> k \<and> k < m" for k
    proof (cases "k < a")
      case True
      then show ?thesis using below [OF False, of k] that by simp
    next
      case False
      then have "a \<le> k \<and> k < m" using that by simp
      with s(4) have "k mod CURVE_n \<noteq> dlog mH mod CURVE_n" by simp
      then show ?thesis by (auto simp: E_def)
    qed
    moreover have "lo \<le> m" using s(1) a(1) by simp
    moreover have "m \<le> hi" using s(2) a(2) by auto
    moreover have "E m" using s(3) by (simp add: E_def)
    ultimately show ?thesis by simp
  qed
  have p2: "R = Inr 0" if "lo = 0 \<and> E 0"
    using that R by (simp add: sc_def)
  have p4: "e = DecryptionRangeError \<and> (\<forall>k. lo \<le> k \<and> k \<le> hi \<longrightarrow> \<not> E k)" if Re: "R = Inl e" for e
  proof -
    from Re R have F: "\<not> sc" by (auto split: if_splits)
    then have "decrypt_search mH hi a (smul a BASE) = Inl e" using Re R by simp
    note S = decrypt_search_Inl [OF this sp]
    note s = S [THEN conjunct1] S [THEN conjunct2]
    have "\<not> E k" if "lo \<le> k \<and> k \<le> hi" for k
    proof (cases "k < a")
      case True
      then show ?thesis using below [OF F, of k] that by simp
    next
      case False
      then have "a \<le> k \<and> (k \<le> hi \<or> k = a)" using that by simp
      with s(2) have "k mod CURVE_n \<noteq> dlog mH mod CURVE_n" by simp
      then show ?thesis by (auto simp: E_def)
    qed
    then show ?thesis using s(1) by simp
  qed
  have p3: "(R = Inl DecryptionRangeError) = (\<forall>k. lo \<le> k \<and> k \<le> hi \<longrightarrow> \<not> E k)"
  proof
    assume "R = Inl DecryptionRangeError"
    from p4 [OF this] show "\<forall>k. lo \<le> k \<and> k \<le> hi \<longrightarrow> \<not> E k" by simp
  next
    assume none: "\<forall>k. lo \<le> k \<and> k \<le> hi \<longrightarrow> \<not> E k"
    show "R = Inl DecryptionRangeError"
    proof (cases R)
      case (Inl e)
      with p4 [OF Inl] show ?thesis by simp
    next
      case (Inr m)
      from p1 [OF Inr] have "lo \<le> m \<and> m \<le> hi" "E m" by simp_all
      with none [THEN spec, of m] show ?thesis by simp
    qed
  qed
  have c1: "\<forall>m. R = Inr m \<longrightarrow>
      lo \<le> m \<and> m \<le> hi \<and> E m \<and> (\<forall>k. lo \<le> k \<and> k < m \<longrightarrow> \<not> E k)"
  proof (intro allI impI)
    fix m assume "R = Inr m"
    then show "lo \<le> m \<and> m \<le> hi \<and> E m \<and> (\<forall>k. lo \<le> k \<and> k < m \<longrightarrow> \<not> E k)" by (rule p1)
  qed
  have c2: "lo = 0 \<and> E 0 \<longrightarrow> R = Inr 0"
  proof
    assume "lo = 0 \<and> E 0"
    then show "R = Inr 0" by (rule p2)
  qed
  have c4: "\<forall>e. R = Inl e \<longrightarrow> e = DecryptionRangeError"
  proof (intro allI impI)
    fix e assume "R = Inl e"
    from p4 [OF this] show "e = DecryptionRangeError" by (rule conjunct1)
  qed
  show ?thesis
    unfolding R_def [symmetric] eqE eq0
    by (rule conjI [OF c1 conjI [OF c2 conjI [OF p3 c4]]])
qed

text \<open>The theorem on the encryption of 5 (private key 2, randomness 9) and the range
  from 0 to 8.\<close>

theorem decryptWithPK_search_witness:
  "decryptWithPK \<lparr>C = RistPoint 68, D = RistPoint ((CURVE_n + 63) div 2)\<rparr> (le_bytes 32 2)
      (Some \<lparr>rangeStart = Some 0, rangeEnd = Some 8\<rparr>) = Inr 5
   \<and> equals (message_point \<lparr>C = RistPoint 68, D = RistPoint ((CURVE_n + 63) div 2)\<rparr> (le_bytes 32 2))
         (smul 5 BASE)"
proof -
  have s: "bytesToNumberLE (le_bytes 32 2) mod CURVE_n \<noteq> 0"
    by code_simp
  have d: "decryptWithPK \<lparr>C = RistPoint 68, D = RistPoint ((CURVE_n + 63) div 2)\<rparr> (le_bytes 32 2)
      (Some \<lparr>rangeStart = Some 0, rangeEnd = Some 8\<rparr>) = Inr 5"
    by code_simp
  have "(0::int) \<le> 0" "(0::int) < 8" by simp_all
  from decryptWithPK_search [OF this CURVE_n_pos s, THEN conjunct1, THEN spec, of _ 5] d
  show ?thesis by simp
qed

text \<open>
  C2 as stated fails: on the encryption of 5 and the range from 0 to 5, no amount of the
  half-open interval satisfies the equation, and \<open>decryptWithPK\<close> returns 5, the upper
  end, where the claim has it throw.
\<close>

theorem decryptWithPK_upper_end_counterexample:
  "encryptWithPK (RistPoint 7) 5 (toRawBytes (smul ((CURVE_n + 1) div 2) (RistPoint 7))) (le_bytes 32 9)
      = Inr \<lparr>C = RistPoint 68, D = RistPoint ((CURVE_n + 63) div 2)\<rparr>
   \<and> decryptWithPK \<lparr>C = RistPoint 68, D = RistPoint ((CURVE_n + 63) div 2)\<rparr> (le_bytes 32 2)
        (Some \<lparr>rangeStart = Some 0, rangeEnd = Some 5\<rparr>) = Inr 5
   \<and> \<not> ((5::int) < 5)"
  by code_simp

lemma addCiphertext_eq:
  "addCiphertext a b = Inr \<lparr>C = add (C a) (C b), D = add (D a) (D b)\<rparr>"
  by (simp add: addCiphertext_def new_TwistedElGamalCiphertext_def add_def Let_def)

lemma cancel_key2:
  assumes "(s * i) mod CURVE_n = 1 mod CURVE_n"
  shows "(m1 + h * r1 + (m2 + h * r2) - (h * i * r1 + h * i * r2) * s) mod CURVE_n
       = (m1 + m2) mod CURVE_n"
proof -
  have e: "m1 + h * r1 + (m2 + h * r2) - (h * i * r1 + h * i * r2) * s
      = (m1 + m2) + h * (r1 + r2) - h * i * (r1 + r2) * s"
    by (simp add: algebra_simps)
  show ?thesis unfolding e by (rule cancel_key [OF assms])
qed

text \<open>
  C4 (as amended). For amounts \<open>m1\<close>, \<open>m2\<close> that are not negative with \<open>m1 + m2 < 2^32\<close>, a key
  pair and two 32 byte randomness values that are not multiples of the group order, both
  encryptions return a ciphertext, \<open>addCiphertext\<close> returns the componentwise sum
  \<open>(C1 + C2, D1 + D2)\<close>, and decrypting it over the range from 0 to \<open>2^32\<close> returns
  \<open>m1 + m2\<close>.
\<close>

theorem addCiphertext_homomorphic:
  assumes key: "privateKey_publicKey H sk = Inr pk"
    and m: "0 \<le> m1" "0 \<le> m2" "m1 + m2 < 2 ^ 32"
    and r1: "length r1 = 32" "bytesToNumberLE r1 mod CURVE_n \<noteq> 0"
    and r2: "length r2 = 32" "bytesToNumberLE r2 mod CURVE_n \<noteq> 0"
  shows "\<exists>ct1 ct2 ct. encryptWithPK H m1 pk r1 = Inr ct1 \<and> encryptWithPK H m2 pk r2 = Inr ct2
            \<and> addCiphertext ct1 ct2 = Inr ct
            \<and> C ct = add (C ct1) (C ct2) \<and> D ct = add (D ct1) (D ct2)
            \<and> decryptWithPK ct sk (Some \<lparr>rangeStart = Some 0, rangeEnd = Some (2 ^ 32)\<rparr>)
                = Inr (m1 + m2)"
proof -
  from publicKey_Inr [OF key] obtain i where
    i: "(bytesToNumberLE sk * i) mod CURVE_n = 1 mod CURVE_n"
    and pk: "fromHex pk = Inr (RistPoint ((dlog H * i) mod CURVE_n))" by (elim exE conjE)
  have mn: "m1 < CURVE_n" "m2 < CURVE_n" "m1 + m2 < CURVE_n"
    using m CURVE_n_gt_chunk by linarith+
  define q1 where "q1 = bytesToNumberLE r1 mod CURVE_n"
  define q2 where "q2 = bytesToNumberLE r2 mod CURVE_n"
  define ct1 where "ct1 = \<lparr>C = RistPoint ((m1 + dlog H * q1) mod CURVE_n),
           D = RistPoint ((dlog (RistPoint ((dlog H * i) mod CURVE_n)) * q1) mod CURVE_n)\<rparr>"
  define ct2 where "ct2 = \<lparr>C = RistPoint ((m2 + dlog H * q2) mod CURVE_n),
           D = RistPoint ((dlog (RistPoint ((dlog H * i) mod CURVE_n)) * q2) mod CURVE_n)\<rparr>"
  define ct where "ct = \<lparr>C = add (C ct1) (C ct2), D = add (D ct1) (D ct2)\<rparr>"
  have e1: "encryptWithPK H m1 pk r1 = Inr ct1"
    unfolding ct1_def using r1(2)
    by (intro encryptWithPK_eq [OF r1(1) _ _ m(1) mn(1) pk]) (simp_all add: q1_def)
  have e2: "encryptWithPK H m2 pk r2 = Inr ct2"
    unfolding ct2_def using r2(2)
    by (intro encryptWithPK_eq [OF r2(1) _ _ m(2) mn(2) pk]) (simp_all add: q2_def)
  have a: "addCiphertext ct1 ct2 = Inr ct"
    by (simp add: addCiphertext_eq ct_def)
  have "dlog (message_point ct sk) mod CURVE_n
      = (m1 + dlog H * q1 + (m2 + dlog H * q2)
          - (dlog H * i * q1 + dlog H * i * q2) * bytesToNumberLE sk) mod CURVE_n"
    by (simp add: message_point_def ct_def ct1_def ct2_def subtract_def smul_def add_def mod_simps)
  also have "\<dots> = (m1 + m2) mod CURVE_n" by (rule cancel_key2 [OF i])
  finally have mp: "dlog (computed_mH ct sk) mod CURVE_n = (m1 + m2) mod CURVE_n"
    by (simp add: computed_mH_dlog)
  have dec: "decryptWithPK ct sk (Some \<lparr>rangeStart = Some 0, rangeEnd = Some (2 ^ 32)\<rparr>) =
     (if equals (computed_mH ct sk) ZERO then Inr 0
      else decrypt_search (computed_mH ct sk) (2 ^ 32) 1 (smul 1 BASE))"
    using decryptWithPK_eq [where lo = 0 and ct = ct and hi = "2 ^ 32" and sk = sk]
      CURVE_n_pos key_nonzero [OF i] by simp
  have "decryptWithPK ct sk (Some \<lparr>rangeStart = Some 0, rangeEnd = Some (2 ^ 32)\<rparr>) = Inr (m1 + m2)"
  proof (cases "m1 + m2 = 0")
    case True
    then show ?thesis using mp by (subst dec) (simp add: equals_ZERO)
  next
    case False
    then have m1: "1 \<le> m1 + m2" using m(1,2) by simp
    have ne: "\<not> equals (computed_mH ct sk) ZERO"
      using mp False m(1,2) mn(3) by (simp add: equals_ZERO)
    have least: "\<forall>k. 1 \<le> k \<and> k < m1 + m2 \<longrightarrow> k mod CURVE_n \<noteq> (m1 + m2) mod CURVE_n"
      using mn(3) m(1,2) by auto
    have "decrypt_search (computed_mH ct sk) (2 ^ 32) 1 (smul 1 BASE) = Inr (m1 + m2)"
      using m(3) by (intro decrypt_search_finds [OF _ m1 _ mp least]) (simp_all add: smul_def BASE_def)
    then show ?thesis using ne by (subst dec) simp
  qed
  with e1 e2 a show ?thesis by (simp add: ct_def)
qed


text \<open>The theorem at the private key 2, the amounts 3 and 4 and the randomness 9 and 11.\<close>

theorem addCiphertext_homomorphic_witness:
  "\<exists>pk ct1 ct2 ct. privateKey_publicKey (RistPoint 7) (le_bytes 32 2) = Inr pk
     \<and> encryptWithPK (RistPoint 7) 3 pk (le_bytes 32 9) = Inr ct1
     \<and> encryptWithPK (RistPoint 7) 4 pk (le_bytes 32 11) = Inr ct2
     \<and> addCiphertext ct1 ct2 = Inr ct
     \<and> decryptWithPK ct (le_bytes 32 2) (Some \<lparr>rangeStart = Some 0, rangeEnd = Some (2 ^ 32)\<rparr>) = Inr 7"
proof -
  have k: "privateKey_publicKey (RistPoint 7) (le_bytes 32 2)
      = Inr (toRawBytes (smul ((CURVE_n + 1) div 2) (RistPoint 7)))"
    by code_simp
  have r1: "bytesToNumberLE (le_bytes 32 9) mod CURVE_n \<noteq> 0"
    by code_simp
  have r2: "bytesToNumberLE (le_bytes 32 11) mod CURVE_n \<noteq> 0"
    by code_simp
  have "\<exists>ct1 ct2 ct. encryptWithPK (RistPoint 7) 3 (toRawBytes (smul ((CURVE_n + 1) div 2) (RistPoint 7))) (le_bytes 32 9) = Inr ct1
     \<and> encryptWithPK (RistPoint 7) 4 (toRawBytes (smul ((CURVE_n + 1) div 2) (RistPoint 7))) (le_bytes 32 11) = Inr ct2
     \<and> addCiphertext ct1 ct2 = Inr ct
     \<and> C ct = add (C ct1) (C ct2) \<and> D ct = add (D ct1) (D ct2)
     \<and> decryptWithPK ct (le_bytes 32 2) (Some \<lparr>rangeStart = Some 0, rangeEnd = Some (2 ^ 32)\<rparr>) = Inr (3 + 4)"
    by (rule addCiphertext_homomorphic [OF k _ _ _ _ r1 _ r2]) simp_all
  then obtain ct1 ct2 ct where
    "encryptWithPK (RistPoint 7) 3 (toRawBytes (smul ((CURVE_n + 1) div 2) (RistPoint 7))) (le_bytes 32 9) = Inr ct1"
    "encryptWithPK (RistPoint 7) 4 (toRawBytes (smul ((CURVE_n + 1) div 2) (RistPoint 7))) (le_bytes 32 11) = Inr ct2"
    "addCiphertext ct1 ct2 = Inr ct"
    "decryptWithPK ct (le_bytes 32 2) (Some \<lparr>rangeStart = Some 0, rangeEnd = Some (2 ^ 32)\<rparr>) = Inr 7"
    by (elim exE conjE) simp
  with k show ?thesis by (intro exI conjI)
qed

text \<open>
  C4 as stated fails when one randomness is 32 zero bytes: the first encryption throws,
  and so does the whole computation.
\<close>

theorem addCiphertext_zero_randomness_counterexample:
  "bindE (encryptWithPK (RistPoint 7) 3 (toRawBytes (smul ((CURVE_n + 1) div 2) (RistPoint 7)))
           (replicate 32 0)) (\<lambda>ct1.
   bindE (encryptWithPK (RistPoint 7) 4 (toRawBytes (smul ((CURVE_n + 1) div 2) (RistPoint 7)))
           (le_bytes 32 11)) (\<lambda>ct2.
   bindE (addCiphertext ct1 ct2) (\<lambda>ct.
   decryptWithPK ct (le_bytes 32 2) (Some \<lparr>rangeStart = Some 0, rangeEnd = Some (2 ^ 32)\<rparr>))))
   = Inl InvalidScalar"
  by code_simp

text \<open>
  C5. \<open>encryptWithPK\<close> throws for every amount that is negative or not below the group
  order, whatever the other arguments are: the exception is the one of \<open>ensureBytes\<close> when
  the randomness has not 32 bytes, else the one of \<open>multiply\<close> on a scalar out of range. For
  an amount from 0 to the group order minus 1 the amount's own exception is never thrown, and
  a ciphertext is returned when the randomness has 32 bytes, is not a multiple of the group
  order and the public key decodes to a point.
\<close>

theorem encryptWithPK_amount_validation:
  "(amount < 0 \<or> CURVE_n \<le> amount \<longrightarrow>
      encryptWithPK H amount pk random = Inl InvalidBytes
      \<or> encryptWithPK H amount pk random = Inl InvalidScalar)
   \<and> (0 \<le> amount \<and> amount < CURVE_n \<longrightarrow>
        encryptWithPK H amount pk random \<noteq> Inl AmountOutOfRange
        \<and> (length random = 32 \<and> bytesToNumberLE random mod CURVE_n \<noteq> 0
              \<and> (\<exists>P. fromHex pk = Inr P) \<longrightarrow>
            (\<exists>ct. encryptWithPK H amount pk random = Inr ct)))"
proof (intro conjI impI)
  assume out: "amount < 0 \<or> CURVE_n \<le> amount"
  then have guard: "\<not> (amount < 0 \<and> amount \<ge> CURVE_n)" and a0: "amount \<noteq> 0"
    and mul: "multiply BASE amount = Inl InvalidScalar"
    using CURVE_n_pos by (auto simp: multiply_def)
  show "encryptWithPK H amount pk random = Inl InvalidBytes
      \<or> encryptWithPK H amount pk random = Inl InvalidScalar"
  proof (cases "length random = 32")
    case False
    then show ?thesis using guard by (simp add: encryptWithPK_def ensureBytes_def)
  next
    case True
    show ?thesis
    proof (cases "multiply H (bytesToNumberLE random mod CURVE_n)")
      case (Inl e)
      then have "e = InvalidScalar" by (auto simp: multiply_def split: if_splits)
      then show ?thesis using guard True Inl by (simp add: encryptWithPK_def ensureBytes_def Let_def)
    next
      case (Inr rH)
      then show ?thesis using guard True a0 mul
        by (simp add: encryptWithPK_def ensureBytes_def Let_def)
    qed
  qed
next
  assume "0 \<le> amount \<and> amount < CURVE_n"
  then show "encryptWithPK H amount pk random \<noteq> Inl AmountOutOfRange"
    by (auto simp: encryptWithPK_def ensureBytes_def Let_def multiply_def bindE_def
        new_TwistedElGamalCiphertext_def fromHex_def split: if_splits sum.splits)
next
  assume a: "0 \<le> amount \<and> amount < CURVE_n"
    and b: "length random = 32 \<and> bytesToNumberLE random mod CURVE_n \<noteq> 0 \<and> (\<exists>P. fromHex pk = Inr P)"
  from b obtain P where P: "fromHex pk = Inr P" by (elim conjE exE)
  from a b show "\<exists>ct. encryptWithPK H amount pk random = Inr ct"
    using encryptWithPK_eq [OF _ refl _ _ _ P, of random amount H] by simp
qed

text \<open>The theorem at the amounts -1 and 5.\<close>

theorem encryptWithPK_amount_validation_witness:
  "(encryptWithPK (RistPoint 7) (- 1) (toRawBytes (RistPoint 3)) (le_bytes 32 9) = Inl InvalidBytes
     \<or> encryptWithPK (RistPoint 7) (- 1) (toRawBytes (RistPoint 3)) (le_bytes 32 9) = Inl InvalidScalar)
   \<and> (\<exists>ct. encryptWithPK (RistPoint 7) 5 (toRawBytes (RistPoint 3)) (le_bytes 32 9) = Inr ct)"
proof -
  have r: "bytesToNumberLE (le_bytes 32 9) mod CURVE_n \<noteq> 0"
    by code_simp
  have n: "(5::int) < CURVE_n" by (simp add: CURVE_n_def)
  note a = encryptWithPK_amount_validation
    [of "- 1" "RistPoint 7" "toRawBytes (RistPoint 3)" "le_bytes 32 9", THEN conjunct1]
  note b = encryptWithPK_amount_validation
    [of 5 "RistPoint 7" "toRawBytes (RistPoint 3)" "le_bytes 32 9", THEN conjunct2]
  from a b r n show ?thesis by simp
qed

section \<open>Facts about the transfer builder\<close>

declare chunk_loop.simps [simp del]

lemma length_concat_fixed:
  "\<forall>x\<in>set xs. length x = n \<Longrightarrow> length (concat xs) = n * length xs"
  by (induction xs) simp_all

lemma chunk_loop_concat:
  "\<forall>x\<in>set xs. length x = 32 \<Longrightarrow> length pre = i
   \<Longrightarrow> chunk_loop i (i + 32 * length xs) (pre @ concat xs) = xs"
proof (induction xs arbitrary: i pre)
  case Nil
  then show ?case by (simp add: chunk_loop.simps [of i])
next
  case (Cons x xs)
  have x: "length x = 32" and xs: "\<forall>y\<in>set xs. length y = 32" using Cons.prems(1) by simp_all
  have "length (pre @ x) = i + 32" using Cons.prems(2) x by simp
  from Cons.IH [OF xs this]
  have ih: "chunk_loop (i + 32) (i + 32 + 32 * length xs) (pre @ x @ concat xs) = xs" by simp
  have cut: "subarray (pre @ x @ concat xs) i (i + 32) = x"
    using Cons.prems(2) x by (simp add: subarray_def)
  have lim: "i + 32 * length (x # xs) = i + 32 + 32 * length xs" by simp
  show ?case
    unfolding lim
    by (subst chunk_loop.simps) (simp add: PROOF_CHUNK_SIZE_def cut ih)
qed

lemma chunk_loop_whole:
  "\<forall>x\<in>set xs. length x = 32 \<Longrightarrow> chunk_loop 0 (32 * length xs) (concat xs) = xs"
  using chunk_loop_concat [of xs "[]" 0] by simp

lemma list4:
  assumes "length xs = 4"
  obtains a b c d where "xs = [a, b, c, d]"
proof -
  from assms obtain a xs1 where 1: "xs = a # xs1" "length xs1 = 3" by (cases xs) auto
  then obtain b xs2 where 2: "xs1 = b # xs2" "length xs2 = 2" by (cases xs1) auto
  then obtain c xs3 where 3: "xs2 = c # xs3" "length xs3 = 1" by (cases xs2) auto
  then obtain d where 4: "xs3 = [d]" by (cases xs3) auto
  from 1 2 3 4 that show ?thesis by simp
qed

lemma constructor_auditors:
  assumes "fromHex pk = Inr P"
  shows "fst (VeiledTransfer_constructor H rng sk eb amount rpk (Some (pk # pks)) rnd)
       = Inl UndefinedDereference"
  using assms
  by (simp add: VeiledTransfer_constructor_def VeiledTransfer_fields_def publicKeyToU8_def Let_def)

lemma constructor_fails:
  "\<exists>e. fst (VeiledTransfer_constructor H rng sk eb amount rpk aud rnd) = Inl e"
  by (simp add: VeiledTransfer_constructor_def VeiledTransfer_fields_def Let_def
      split: sum.split)

lemma constructor_independent:
  "VeiledTransfer_constructor H rng sk eb amount rpk aud rnd
     = VeiledTransfer_constructor H rng2 sk eb amount rpk aud rnd2"
  by (simp add: VeiledTransfer_constructor_def VeiledTransfer_fields_def Let_def
      split: sum.split)

lemma constructor_state:
  "isInitialized (snd (VeiledTransfer_constructor H rng sk eb amount rpk aud rnd)) = False"
  "randomness (snd (VeiledTransfer_constructor H rng sk eb amount rpk aud rnd)) = None"
  by (simp_all add: VeiledTransfer_constructor_def VeiledTransfer_fields_def Let_def
      split: sum.split)

lemma init_uninitialized:
  "\<not> isInitialized this \<Longrightarrow> init H rng this = (Inl NotInitialized, this)"
  by (simp add: init_def)

lemma init_iterated:
  "\<not> isInitialized this \<Longrightarrow> ((\<lambda>s. snd (init H rng s)) ^^ n) this = this"
  by (induction n) (simp_all add: init_uninitialized)

lemma bindE_neq: "m \<noteq> Inl e \<Longrightarrow> (\<And>x. f x \<noteq> Inl e) \<Longrightarrow> bindE m f \<noteq> Inl e"
  by (cases m) simp_all


lemma reduceE_neq: "(\<And>acc x. f acc x \<noteq> Inl e) \<Longrightarrow> reduceE f a xs \<noteq> Inl e"
  by (induction xs arbitrary: a) (simp_all add: bindE_neq)

lemma multiply_neq [simp]: "multiply P k \<noteq> Inl AmountTooLarge"
  by (simp add: multiply_def)

lemma fromHex_neq [simp]: "fromHex bs \<noteq> Inl AmountTooLarge"
  by (simp add: fromHex_def)

lemma numberToBytesLE_neq [simp]: "numberToBytesLE a k \<noteq> Inl AmountTooLarge"
  by (simp add: numberToBytesLE_def Let_def)

lemma invert_neq [simp]: "invert a m \<noteq> Inl AmountTooLarge"
  by (simp add: invert_def split: prod.split)

lemma privateKey_publicKey_neq [simp]: "privateKey_publicKey H sk \<noteq> Inl AmountTooLarge"
  by (simp add: privateKey_publicKey_def bindE_neq)

lemma new_ciphertext_neq [simp]: "new_TwistedElGamalCiphertext c d \<noteq> Inl AmountTooLarge"
  by (simp add: new_TwistedElGamalCiphertext_def bindE_neq)

lemma encryptWithPK_bigint_neq [simp]:
  "encryptWithPK_bigint H m pk r d \<noteq> Inl AmountTooLarge"
  by (simp add: encryptWithPK_bigint_def encryptWithPK_def ensureBytes_def Let_def bindE_neq
      split: option.split)

lemma weighted_D_sum_neq [simp]: "weighted_D_sum cts \<noteq> Inl AmountTooLarge"
  unfolding weighted_D_sum_def
  by (rule reduceE_neq) (simp add: bindE_neq split: prod.split)




lemma mapE_cong: "(\<And>x. x \<in> set xs \<Longrightarrow> f x = g x) \<Longrightarrow> mapE f xs = mapE g xs"
  by (induction xs) simp_all



section \<open>Claims about the transfer builder\<close>

text \<open>
  C6 (as amended). The constructor reads the field \<open>randomness\<close> before it assigns it.
  With a list of auditor keys that is not empty and whose first key decodes to a point,
  the constructor throws the TypeError of reading a property of \<open>undefined\<close>. Every call of the
  constructor throws (with no auditor, on the arithmetic on the \<open>balanceAfterTransfer\<close>
  that is \<open>undefined\<close> as well), its outcome does not depend on the randomness handed in
  nor on the scalars drawn, and no randomness is stored.
\<close>

theorem constructor_reads_unassigned_randomness:
  "(auditorPublicKeys' = Some (pk # pks) \<and> (\<exists>P. fromHex pk = Inr P) \<longrightarrow>
      fst (VeiledTransfer_constructor H rng sk eb amount rpk auditorPublicKeys' randomness')
        = Inl UndefinedDereference)
   \<and> (\<exists>e. fst (VeiledTransfer_constructor H rng sk eb amount rpk auditorPublicKeys' randomness')
           = Inl e)
   \<and> VeiledTransfer_constructor H rng sk eb amount rpk auditorPublicKeys' randomness'
       = VeiledTransfer_constructor H rng2 sk eb amount rpk auditorPublicKeys' randomness2
   \<and> randomness (snd (VeiledTransfer_constructor H rng sk eb amount rpk auditorPublicKeys'
                        randomness')) = None"
proof (intro conjI impI)
  assume "auditorPublicKeys' = Some (pk # pks) \<and> (\<exists>P. fromHex pk = Inr P)"
  then obtain P where "auditorPublicKeys' = Some (pk # pks)" "fromHex pk = Inr P"
    by (elim conjE exE)
  then show "fst (VeiledTransfer_constructor H rng sk eb amount rpk auditorPublicKeys' randomness')
        = Inl UndefinedDereference"
    by (simp add: constructor_auditors)
next
  show "\<exists>e. fst (VeiledTransfer_constructor H rng sk eb amount rpk auditorPublicKeys' randomness')
           = Inl e"
    by (rule constructor_fails)
next
  show "VeiledTransfer_constructor H rng sk eb amount rpk auditorPublicKeys' randomness'
       = VeiledTransfer_constructor H rng2 sk eb amount rpk auditorPublicKeys' randomness2"
    by (rule constructor_independent)
next
  show "randomness (snd (VeiledTransfer_constructor H rng sk eb amount rpk auditorPublicKeys'
                        randomness')) = None"
    by (rule constructor_state)
qed


text \<open>The theorem at one auditor key.\<close>

theorem constructor_reads_unassigned_randomness_witness:
  "fst (VeiledTransfer_constructor (RistPoint 7) (\<lambda>i. 1) (le_bytes 32 2) [] 10
          (toRawBytes (RistPoint 3)) (Some [toRawBytes (RistPoint 5)]) (Some [1, 2, 3, 4]))
     = Inl UndefinedDereference"
  using constructor_reads_unassigned_randomness
    [of "Some [toRawBytes (RistPoint 5)]" "toRawBytes (RistPoint 5)" "[]" "RistPoint 7"
        "\<lambda>i. 1" "le_bytes 32 2" "[]" 10 "toRawBytes (RistPoint 3)" "Some [1, 2, 3, 4]",
     THEN conjunct1]
  by simp

text \<open>
  C6 as stated fails on a list of auditor keys whose first key is not the encoding of a
  point, here 32 bytes 255: \<open>RistrettoPoint.fromHex(pk)\<close> throws before \<open>this.randomness\<close>
  is read, and the constructor fails with that error and not by the dereference.
\<close>

theorem constructor_invalid_auditor_key_counterexample:
  "fst (VeiledTransfer_constructor (RistPoint 7) (\<lambda>i. 1) (le_bytes 32 2) [] 10
          (toRawBytes (RistPoint 3)) (Some [replicate 32 255]) (Some [1, 2, 3, 4]))
     = Inl InvalidPoint"
proof -
  have "fromHex (replicate 32 255) = Inl InvalidPoint"
    by code_simp
  then show ?thesis
    by (simp add: VeiledTransfer_constructor_def VeiledTransfer_fields_def publicKeyToU8_def
        Let_def)
qed

text \<open>
  C7. The object the constructor builds has \<open>isInitialized = false\<close>, whether the body
  throws or not. On every object with \<open>isInitialized = false\<close>, \<open>init\<close> throws the
  TypeError of its guard and leaves the object as it was, so that any number of calls of
  \<open>init\<close> leaves it as it was; \<open>genSigmaProof\<close> and \<open>genRangeProof\<close> throw the same TypeError,
  before and after those calls.
\<close>

theorem uninitialized_builder_is_stuck:
  "isInitialized (snd (VeiledTransfer_constructor H rng sk eb amount rpk aud rnd)) = False
   \<and> (\<not> isInitialized this \<longrightarrow>
        init H rng this = (Inl NotInitialized, this)
        \<and> ((\<lambda>s. snd (init H rng s)) ^^ n) this = this
        \<and> genSigmaProof H sha512 rng this = Inl NotInitialized
        \<and> genRangeProof H generateRangeZKP this = Inl NotInitialized
        \<and> genSigmaProof H sha512 rng (((\<lambda>s. snd (init H rng s)) ^^ n) this) = Inl NotInitialized
        \<and> genRangeProof H generateRangeZKP (((\<lambda>s. snd (init H rng s)) ^^ n) this)
            = Inl NotInitialized)"
  by (simp add: constructor_state init_uninitialized init_iterated genSigmaProof_def
      genRangeProof_def)

text \<open>The theorem on the object with the field initialisers only, and three calls of
  \<open>init\<close>.\<close>

theorem uninitialized_builder_is_stuck_witness:
  "init (RistPoint 7) (\<lambda>i. 1) VeiledTransfer_fields = (Inl NotInitialized, VeiledTransfer_fields)
   \<and> genSigmaProof (RistPoint 7) (\<lambda>bs. []) (\<lambda>i. 1)
        (((\<lambda>s. snd (init (RistPoint 7) (\<lambda>i. 1) s)) ^^ 3) VeiledTransfer_fields)
        = Inl NotInitialized
   \<and> genRangeProof (RistPoint 7) (\<lambda>inputs. Inl BackendError)
        (((\<lambda>s. snd (init (RistPoint 7) (\<lambda>i. 1) s)) ^^ 3) VeiledTransfer_fields)
        = Inl NotInitialized"
proof -
  have u: "\<not> isInitialized VeiledTransfer_fields"
    by (simp add: VeiledTransfer_fields_def)
  note t = uninitialized_builder_is_stuck
    [of "RistPoint 7" "\<lambda>i. 1" "[]" "[]" 0 "[]" None None VeiledTransfer_fields 3 "\<lambda>bs. []"
        "\<lambda>inputs. Inl BackendError", THEN conjunct2, rule_format, OF u]
  from t show ?thesis by (elim conjE) (intro conjI)
qed



text \<open>
  C9. For a transfer sigma proof whose scalars and points have 32 bytes, whose lists have 4
  elements and whose auditor list \<open>X7List\<close> has \<open>4 k\<close> elements of 32 bytes,
  \<open>deserializeSigmaProof\<close> returns the proof itself on what \<open>serializeSigmaProof\<close> returns;
  the bytes are the fields in the order \<open>alpha1, alpha2, alpha3List, alpha4List, alpha5,
  alpha6List, X1, X2List, X3List, X4List, X5, X6List\<close>, then the auditor list, and their
  number is \<open>33 \<cdot> 32 + 32 \<cdot> 4 k\<close>.
\<close>

theorem serialize_deserialize_roundtrip:
  assumes single: "length (alpha1 p) = 32" "length (alpha2 p) = 32" "length (alpha5 p) = 32"
      "length (X1 p) = 32" "length (X5 p) = 32"
    and counts: "length (alpha3List p) = 4" "length (alpha4List p) = 4"
      "length (alpha6List p) = 4" "length (X2List p) = 4" "length (X3List p) = 4"
      "length (X4List p) = 4" "length (X6List p) = 4"
    and sizes: "\<forall>x\<in>set (alpha3List p @ alpha4List p @ alpha6List p @ X2List p @ X3List p
                          @ X4List p @ X6List p). length x = 32"
    and auditors: "X7List p = Some xs" "length xs = 4 * k" "\<forall>x\<in>set xs. length x = 32"
  shows "deserializeSigmaProof (serializeSigmaProof p) = Inr p
       \<and> serializeSigmaProof p =
           alpha1 p @ alpha2 p @ concat (alpha3List p) @ concat (alpha4List p) @ alpha5 p
           @ concat (alpha6List p) @ X1 p @ concat (X2List p) @ concat (X3List p)
           @ concat (X4List p) @ X5 p @ concat (X6List p) @ concat xs
       \<and> length (serializeSigmaProof p) = SIGMA_PROOF_TRANSFER_SIZE + PROOF_CHUNK_SIZE * (4 * k)"
proof -
  obtain a30 a31 a32 a33 where a3: "alpha3List p = [a30, a31, a32, a33]"
    using counts(1) by (rule list4)
  obtain a40 a41 a42 a43 where a4: "alpha4List p = [a40, a41, a42, a43]"
    using counts(2) by (rule list4)
  obtain a60 a61 a62 a63 where a6: "alpha6List p = [a60, a61, a62, a63]"
    using counts(3) by (rule list4)
  obtain x20 x21 x22 x23 where x2: "X2List p = [x20, x21, x22, x23]"
    using counts(4) by (rule list4)
  obtain x30 x31 x32 x33 where x3: "X3List p = [x30, x31, x32, x33]"
    using counts(5) by (rule list4)
  obtain x40 x41 x42 x43 where x4: "X4List p = [x40, x41, x42, x43]"
    using counts(6) by (rule list4)
  obtain x60 x61 x62 x63 where x6: "X6List p = [x60, x61, x62, x63]"
    using counts(7) by (rule list4)
  define F where "F = [alpha1 p, alpha2 p, a30, a31, a32, a33, a40, a41, a42, a43, alpha5 p,
     a60, a61, a62, a63, X1 p, x20, x21, x22, x23, x30, x31, x32, x33, x40, x41, x42, x43,
     X5 p, x60, x61, x62, x63]"
  have F32: "\<forall>x\<in>set F. length x = 32"
    using single sizes by (simp add: F_def a3 a4 a6 x2 x3 x4 x6)
  have lenF: "length F = 33" by (simp add: F_def)
  have ser: "serializeSigmaProof p = concat F @ concat xs"
    by (simp add: serializeSigmaProof_def F_def a3 a4 a6 x2 x3 x4 x6 auditors(1))
  have lcF: "length (concat F) = 1056"
    using length_concat_fixed [OF F32] lenF by simp
  have lcx: "length (concat xs) = 32 * length xs"
    using length_concat_fixed [OF auditors(3)] by simp
  have base: "chunk_loop 0 1056 (concat F) = F"
    using chunk_loop_whole [OF F32] lenF by simp
  have fields: "\<lparr>alpha1 = F ! 0, alpha2 = F ! 1, alpha3List = subarray F 2 6,
      alpha4List = subarray F 6 10, alpha5 = F ! 10, alpha6List = subarray F 11 15,
      X1 = F ! 15, X2List = subarray F 16 20, X3List = subarray F 20 24,
      X4List = subarray F 24 28, X5 = F ! 28, X6List = drop 29 F, X7List = Some xs\<rparr> = p"
    by (cases p) (use a3 a4 a6 x2 x3 x4 x6 auditors(1) in \<open>simp add: F_def subarray_def\<close>)
  have d: "deserializeSigmaProof (concat F @ concat xs) = Inr p"
    unfolding deserializeSigmaProof_def
    using lcF lcx base fields chunk_loop_whole [OF auditors(3)]
    by (auto simp: PROOF_CHUNK_SIZE_def SIGMA_PROOF_TRANSFER_SIZE_def VEILED_BALANCE_CHUNK_SIZE_def
        subarray_def Let_def)
  have layout: "concat F @ concat xs =
           alpha1 p @ alpha2 p @ concat (alpha3List p) @ concat (alpha4List p) @ alpha5 p
           @ concat (alpha6List p) @ X1 p @ concat (X2List p) @ concat (X3List p)
           @ concat (X4List p) @ X5 p @ concat (X6List p) @ concat xs"
    by (simp add: F_def a3 a4 a6 x2 x3 x4 x6)
  have len: "length (concat F @ concat xs) = SIGMA_PROOF_TRANSFER_SIZE + PROOF_CHUNK_SIZE * (4 * k)"
    using lcF lcx auditors(2) by (simp add: PROOF_CHUNK_SIZE_def SIGMA_PROOF_TRANSFER_SIZE_def)
  show ?thesis unfolding ser using d layout len by simp
qed

text \<open>The theorem on a proof with one auditor.\<close>

theorem serialize_deserialize_roundtrip_witness:
  "deserializeSigmaProof (serializeSigmaProof
     \<lparr>alpha1 = replicate 32 1, alpha2 = replicate 32 2, alpha3List = replicate 4 (replicate 32 3),
      alpha4List = replicate 4 (replicate 32 4), alpha5 = replicate 32 5,
      alpha6List = replicate 4 (replicate 32 6), X1 = replicate 32 7,
      X2List = replicate 4 (replicate 32 8), X3List = replicate 4 (replicate 32 9),
      X4List = replicate 4 (replicate 32 10), X5 = replicate 32 11,
      X6List = replicate 4 (replicate 32 12), X7List = Some (replicate 4 (replicate 32 13))\<rparr>)
   = Inr \<lparr>alpha1 = replicate 32 1, alpha2 = replicate 32 2, alpha3List = replicate 4 (replicate 32 3),
      alpha4List = replicate 4 (replicate 32 4), alpha5 = replicate 32 5,
      alpha6List = replicate 4 (replicate 32 6), X1 = replicate 32 7,
      X2List = replicate 4 (replicate 32 8), X3List = replicate 4 (replicate 32 9),
      X4List = replicate 4 (replicate 32 10), X5 = replicate 32 11,
      X6List = replicate 4 (replicate 32 12), X7List = Some (replicate 4 (replicate 32 13))\<rparr>"
  by (rule serialize_deserialize_roundtrip
        [where k = 1 and xs = "replicate 4 (replicate 32 13)", THEN conjunct1]) simp_all





section \<open>Facts about the withdraw sigma proof\<close>


lemma length_toRawBytes [simp]: "length (toRawBytes P) = 32"
  by (simp add: toRawBytes_def)
















section \<open>Claims about the withdraw sigma proof\<close>





end
